theory Spec2Isabelle
  imports Main "HOL-Library.Sublist"
begin

section \<open>JavaScript strings\<close>

text \<open>
  Strings are lists of \<^typ>\<open>char\<close>. The primitives of the runtime whose result depends
  on the Unicode tables, \<open>String.prototype.trim\<close>, \<open>toLowerCase\<close> and
  \<open>split(/\s+/)\<close>, are parameters of the functions that call them, as are
  \<open>JSON.parse\<close> and \<open>new Date(string)\<close>. What is written out here compares
  characters only.
\<close>

text \<open>\<open>s.split(c)\<close> for a one-character separator; the empty string splits into \<open>[""]\<close>.\<close>

fun split_on :: "char \<Rightarrow> string \<Rightarrow> string list" where
  "split_on c [] = [[]]"
| "split_on c (x # xs) =
     (if x = c then [] # split_on c xs
      else (case split_on c xs of [] \<Rightarrow> [[x]] | w # ws \<Rightarrow> (x # w) # ws))"

text \<open>\<open>.filter(Boolean)\<close> on an array of strings keeps the non-empty ones.\<close>

definition filter_Boolean :: "string list \<Rightarrow> string list" where
  "filter_Boolean xs = filter (\<lambda>s. s \<noteq> []) xs"

text \<open>\<open>s.includes(t)\<close>: \<open>t\<close> occurs in \<open>s\<close> as a contiguous substring.\<close>

fun js_includes :: "string \<Rightarrow> string \<Rightarrow> bool" where
  "js_includes [] t = (t = [])"
| "js_includes (c # cs) t = (prefix t (c # cs) \<or> js_includes cs t)"


text \<open>\<open>a || b\<close> on strings: the empty string is falsy.\<close>

definition or_else :: "string \<Rightarrow> string \<Rightarrow> string" where
  "or_else a b = (if a = [] then b else a)"

text \<open>A \<open>Set<string>\<close> keeps insertion order and ignores a second insertion.\<close>

definition set_add :: "string \<Rightarrow> string list \<Rightarrow> string list" where
  "set_add x xs = (if x \<in> set xs then xs else xs @ [x])"

text \<open>A present string that is not empty (the truthiness test on an optional string).\<close>

fun truthy :: "string option \<Rightarrow> bool" where
  "truthy None = False"
| "truthy (Some s) = (s \<noteq> [])"

section \<open>JavaScript numbers and dates\<close>

text \<open>
  A number is modelled by its value when that value is an integer: token counters, time
  values, day counts. The code computes with doubles, so a sum, difference or product
  is the exact result rounded to the nearest double, ties to even; up to \<open>2^53\<close> in
  magnitude nothing is rounded. Results of magnitude \<open>2^1024\<close> and more, which the
  runtime turns into \<open>Infinity\<close>, and fractions are outside the model.
\<close>

function bitlen :: "int \<Rightarrow> nat" where
  "bitlen n = (if n \<le> 0 then 0 else Suc (bitlen (n div 2)))"
  by pat_completeness auto
termination
  by (relation "measure nat") auto

declare bitlen.simps [simp del]

definition round_magnitude :: "int \<Rightarrow> int" where
  "round_magnitude m =
     (if m \<le> 2 ^ 53 then m
      else
        let q = 2 ^ (bitlen m - 53);
            lo = (m div q) * q;
            r = m mod q
        in if 2 * r < q then lo
           else if q < 2 * r then lo + q
           else if even (m div q) then lo else lo + q)"

definition round_to_double :: "int \<Rightarrow> int" where
  "round_to_double x = (if x < 0 then - round_magnitude (- x) else round_magnitude x)"

definition js_add :: "int \<Rightarrow> int \<Rightarrow> int" where
  "js_add a b = round_to_double (a + b)"

definition js_sub :: "int \<Rightarrow> int \<Rightarrow> int" where
  "js_sub a b = round_to_double (a - b)"

definition js_mul :: "int \<Rightarrow> int \<Rightarrow> int" where
  "js_mul a b = round_to_double (a * b)"

text \<open>\<open>x || 0\<close> on an optional number.\<close>

fun or_zero :: "int option \<Rightarrow> int" where
  "or_zero None = 0"
| "or_zero (Some n) = n"

text \<open>
  A \<open>Date\<close> holds a time value in milliseconds, or is an Invalid Date, whose time
  value is \<open>NaN\<close>. \<open>new Date(n)\<close> is invalid when \<open>n\<close> is beyond 8.64e15 in
  magnitude. Comparing two dates with \<open><\<close>, \<open>>\<close> or \<open>>=\<close> compares their time
  values, and every comparison with \<open>NaN\<close> is false.
\<close>

datatype Date = ValidDate int | InvalidDate

definition maxTime :: int where
  "maxTime = 8640000000000000"

definition newDate :: "int \<Rightarrow> Date" where
  "newDate t = (if \<bar>t\<bar> \<le> maxTime then ValidDate t else InvalidDate)"

fun getTime :: "Date \<Rightarrow> int option" where
  "getTime (ValidDate t) = Some t"
| "getTime InvalidDate = None"

fun date_lt :: "Date \<Rightarrow> Date \<Rightarrow> bool" where
  "date_lt (ValidDate a) (ValidDate b) = (a < b)"
| "date_lt _ _ = False"

fun date_gt :: "Date \<Rightarrow> Date \<Rightarrow> bool" where
  "date_gt (ValidDate a) (ValidDate b) = (a > b)"
| "date_gt _ _ = False"

fun date_ge :: "Date \<Rightarrow> Date \<Rightarrow> bool" where
  "date_ge (ValidDate a) (ValidDate b) = (a \<ge> b)"
| "date_ge _ _ = False"

section \<open>Session data (shared/types.ts)\<close>

text \<open>Values of type \<open>unknown\<close> that come out of the JSON parser.\<close>

datatype json =
    JNull
  | JBool bool
  | JNum int
  | JStr string
  | JArr "json list"
  | JObj "(string \<times> json) list"

record TokenUsage =
  input_tokens :: "int option"
  output_tokens :: "int option"
  cache_creation_input_tokens :: "int option"
  cache_read_input_tokens :: "int option"

record ContentBlock =
  block_type :: string
  block_name :: "string option"
  block_input :: "(string \<times> json) list option"

text \<open>
  The \<open>content\<close> of a message is tested by the parser with \<open>typeof ... === 'string'\<close>
  and \<open>Array.isArray\<close>: it is a string, an array, or something else. An element of
  the array is a content block, or \<open>null\<close> (\<open>None\<close>), of which the parser reads
  \<open>type\<close> all the same.
\<close>

datatype MessageContent =
    StringContent string
  | ArrayContent "ContentBlock option list"
  | OtherContent

text \<open>
  \<open>UserMessage | AssistantMessage\<close>: the fields the parser reads. \<open>model\<close> and
  \<open>usage\<close> are tested for presence before use, so they are optional here.
\<close>

record Message =
  msg_content :: MessageContent
  msg_model :: "string option"
  msg_usage :: "TokenUsage option"

text \<open>
  \<open>SessionMessage\<close>, with \<open>type\<close> any string: the parser tests it. The parser
  casts what \<open>JSON.parse\<close> returns to this type and reads \<open>message.content\<close> and
  \<open>message.model\<close> without a test; \<open>message\<close> is \<open>None\<close> when the event has
  no \<open>message\<close> or has \<open>null\<close> there.
\<close>

record SessionMessage =
  ev_type :: string
  ev_message :: "Message option"
  ev_sessionId :: string
  ev_timestamp :: string
  ev_gitBranch :: string
  ev_cwd :: string
  ev_version :: string

record ModelTokens =
  tok_input :: int
  tok_output :: int
  tok_cacheCreation :: int
  tok_cacheRead :: int

datatype SessionType = ClaudeCode | OpenCode

text \<open>\<open>ParsedSession\<close>\<close>

record ParsedSession =
  session_id :: string
  startedAt :: Date
  endedAt :: Date
  gitBranch :: string
  cwd :: string
  version :: string
  messageCount :: nat
  inputTokens :: int
  outputTokens :: int
  cacheCreationTokens :: int
  cacheReadTokens :: int
  userMessages :: "string list"
  toolsUsed :: "string list"
  filesFromToolCalls :: "string list"
  modelsUsed :: "string list"
  modelTokens :: "(string \<times> ModelTokens) list"
  title :: "string option"
  sessionType :: "SessionType option"

text \<open>The OpenCode export format.\<close>

record OpenCodeModel =
  providerID :: string
  modelID :: string

record OpenCodePart =
  part_type :: string
  part_text :: "string option"

text \<open>
  \<open>parameters\<close> is declared \<open>any\<close>; the parser reads its properties \<open>filePath\<close>,
  \<open>path\<close> and \<open>file\<close> and adds them to a \<open>Set<string>\<close>, so they are optional
  strings here.
\<close>

record ToolParameters =
  param_filePath :: "string option"
  param_path :: "string option"
  param_file :: "string option"

record ToolCall =
  tc_name :: string
  tc_parameters :: "ToolParameters option"

record OpenCodeMessage =
  info_role :: string
  info_model :: "OpenCodeModel option"
  parts :: "OpenCodePart list option"
  toolCalls :: "ToolCall list option"

record OpenCodeSession =
  info_id :: string
  info_directory :: string
  info_title :: string
  info_time_created :: int
  info_time_updated :: int
  messages :: "OpenCodeMessage list"

section \<open>The parser (shared/parser.ts)\<close>

subsection \<open>extractFilePaths\<close>

definition pathKeys :: "string list" where
  "pathKeys = [''file_path'', ''path'', ''file'', ''filename'', ''filePath'']"

definition looksLikePath :: "string \<Rightarrow> bool" where
  "looksLikePath v = (CHR ''/'' \<in> set v \<or> CHR 0x5C \<in> set v)"

text \<open>
  The loop over \<open>Object.entries(input)\<close>: a string under a path key is added when it
  has a separator; a nested plain object (not \<open>null\<close>, not an array) is walked too.
\<close>

function extractFilePaths :: "(string \<times> json) list \<Rightarrow> string list \<Rightarrow> string list" where
  "extractFilePaths [] files = files"
| "extractFilePaths ((key, v) # rest) files =
     (let files1 = (case v of
                      JStr s \<Rightarrow> if key \<in> set pathKeys \<and> looksLikePath s
                                then set_add s files else files
                    | _ \<Rightarrow> files);
          files2 = (case v of
                      JObj inner \<Rightarrow> extractFilePaths inner files1
                    | _ \<Rightarrow> files1)
      in extractFilePaths rest files2)"
  by pat_completeness auto
termination
  by (relation "measure (\<lambda>(kvs, files). size_list (size_prod (\<lambda>k. 0) size) kvs)") auto

subsection \<open>extractFromContentBlock\<close>

record Accumulator =
  acc_userMessages :: "string list"
  acc_toolsUsed :: "string list"
  acc_filesFromToolCalls :: "string list"
  acc_modelsUsed :: "string list"
  acc_inputTokens :: int
  acc_outputTokens :: int
  acc_cacheCreationTokens :: int
  acc_cacheReadTokens :: int
  acc_modelTokens :: "(string \<times> ModelTokens) list"

definition emptyAccumulator :: Accumulator where
  "emptyAccumulator =
     \<lparr>acc_userMessages = [], acc_toolsUsed = [], acc_filesFromToolCalls = [],
      acc_modelsUsed = [], acc_inputTokens = 0, acc_outputTokens = 0,
      acc_cacheCreationTokens = 0, acc_cacheReadTokens = 0, acc_modelTokens = []\<rparr>"

definition extractFromContentBlock :: "ContentBlock \<Rightarrow> Accumulator \<Rightarrow> Accumulator" where
  "extractFromContentBlock block acc =
     (if block_type block = ''tool_use'' \<and> truthy (block_name block) then
        let acc1 = acc\<lparr>acc_toolsUsed := set_add (the (block_name block)) (acc_toolsUsed acc)\<rparr>
        in (case block_input block of
              None \<Rightarrow> acc1
            | Some inp \<Rightarrow>
                acc1\<lparr>acc_filesFromToolCalls :=
                       extractFilePaths inp (acc_filesFromToolCalls acc1)\<rparr>)
      else acc)"

subsection \<open>The per-model buckets\<close>

text \<open>
  \<open>modelTokens\<close> is a plain object indexed by the model name, so
  \<open>modelTokens[name]\<close> also finds the members every object inherits. Such a value is
  truthy: no bucket is created for that name, and the later \<open>+=\<close> lands on the
  inherited object, not on \<open>modelTokens\<close>.
\<close>

definition Object_prototype_properties :: "string list" where
  "Object_prototype_properties =
     [''constructor'', ''__defineGetter__'', ''__defineSetter__'', ''hasOwnProperty'',
      ''__lookupGetter__'', ''__lookupSetter__'', ''isPrototypeOf'',
      ''propertyIsEnumerable'', ''toString'', ''valueOf'', ''__proto__'',
      ''toLocaleString'']"

definition bucketTruthy :: "(string \<times> ModelTokens) list \<Rightarrow> string \<Rightarrow> bool" where
  "bucketTruthy mt name = (map_of mt name \<noteq> None \<or> name \<in> set Object_prototype_properties)"

definition zeroTokens :: ModelTokens where
  "zeroTokens = \<lparr>tok_input = 0, tok_output = 0, tok_cacheCreation = 0, tok_cacheRead = 0\<rparr>"

definition addUsage :: "TokenUsage \<Rightarrow> ModelTokens \<Rightarrow> ModelTokens" where
  "addUsage u b =
     \<lparr>tok_input = js_add (tok_input b) (or_zero (input_tokens u)),
      tok_output = js_add (tok_output b) (or_zero (output_tokens u)),
      tok_cacheCreation =
        js_add (tok_cacheCreation b) (or_zero (cache_creation_input_tokens u)),
      tok_cacheRead = js_add (tok_cacheRead b) (or_zero (cache_read_input_tokens u))\<rparr>"

fun updateBucket :: "string \<Rightarrow> TokenUsage \<Rightarrow> (string \<times> ModelTokens) list
    \<Rightarrow> (string \<times> ModelTokens) list" where
  "updateBucket name u [] = []"
| "updateBucket name u ((k, b) # rest) =
     (if k = name then (k, addUsage u b) # rest else (k, b) # updateBucket name u rest)"

subsection \<open>parseSessionContent\<close>

text \<open>
  Reading a property of \<open>undefined\<close> or \<open>null\<close> raises a \<open>TypeError\<close>. The loop
  over the retained events is not inside a \<open>try\<close>, so the error leaves
  \<open>parseSessionContent\<close>: a result is \<open>Inl TypeError\<close> or \<open>Inr\<close> of what is
  returned.
\<close>

datatype error = TypeError

definition trackModel :: "Message \<Rightarrow> Accumulator \<Rightarrow> Accumulator" where
  "trackModel m acc =
     (if truthy (msg_model m) then
        let name = the (msg_model m);
            acc1 = acc\<lparr>acc_modelsUsed := set_add name (acc_modelsUsed acc)\<rparr>
        in if \<not> bucketTruthy (acc_modelTokens acc1) name
           then acc1\<lparr>acc_modelTokens := acc_modelTokens acc1 @ [(name, zeroTokens)]\<rparr>
           else acc1
      else acc)"

definition accumulateUsage :: "Message \<Rightarrow> Accumulator \<Rightarrow> Accumulator" where
  "accumulateUsage m acc =
     (case msg_usage m of
        None \<Rightarrow> acc
      | Some u \<Rightarrow>
          let acc1 = acc\<lparr>acc_inputTokens := js_add (acc_inputTokens acc) (or_zero (input_tokens u)),
                         acc_outputTokens :=
                           js_add (acc_outputTokens acc) (or_zero (output_tokens u)),
                         acc_cacheCreationTokens :=
                           js_add (acc_cacheCreationTokens acc)
                             (or_zero (cache_creation_input_tokens u)),
                         acc_cacheReadTokens :=
                           js_add (acc_cacheReadTokens acc)
                             (or_zero (cache_read_input_tokens u))\<rparr>
          in if truthy (msg_model m) \<and> bucketTruthy (acc_modelTokens acc1) (the (msg_model m))
             then acc1\<lparr>acc_modelTokens :=
                         updateBucket (the (msg_model m)) u (acc_modelTokens acc1)\<rparr>
             else acc1)"

text \<open>The loop over the content blocks; \<open>block.type\<close> of a \<open>null\<close> element raises.\<close>

fun extractBlockList :: "ContentBlock option list \<Rightarrow> Accumulator \<Rightarrow> error + Accumulator" where
  "extractBlockList [] acc = Inr acc"
| "extractBlockList (None # blocks) acc = Inl TypeError"
| "extractBlockList (Some block # blocks) acc =
     extractBlockList blocks (extractFromContentBlock block acc)"

definition extractBlocks :: "Message \<Rightarrow> Accumulator \<Rightarrow> error + Accumulator" where
  "extractBlocks m acc =
     (case msg_content m of
        ArrayContent blocks \<Rightarrow> extractBlockList blocks acc
      | _ \<Rightarrow> Inr acc)"

text \<open>
  The body of the loop \<open>for (const msg of messages)\<close>. \<open>trim\<close> is
  \<open>String.prototype.trim\<close>.
\<close>

definition processMessage :: "(string \<Rightarrow> string) \<Rightarrow> SessionMessage \<Rightarrow> Accumulator
    \<Rightarrow> error + Accumulator" where
  "processMessage trim msg acc =
     (if ev_type msg = ''user'' then
        (case ev_message msg of
           None \<Rightarrow> Inl TypeError
         | Some userMsg \<Rightarrow>
             (case msg_content userMsg of
                StringContent c \<Rightarrow>
                  if trim c \<noteq> []
                  then Inr (acc\<lparr>acc_userMessages := acc_userMessages acc @ [c]\<rparr>)
                  else Inr acc
              | _ \<Rightarrow> Inr acc))
      else if ev_type msg = ''assistant'' then
        (case ev_message msg of
           None \<Rightarrow> Inl TypeError
         | Some assistantMsg \<Rightarrow>
             extractBlocks assistantMsg
               (accumulateUsage assistantMsg (trackModel assistantMsg acc)))
      else Inr acc)"

fun processMessages :: "(string \<Rightarrow> string) \<Rightarrow> SessionMessage list \<Rightarrow> Accumulator
    \<Rightarrow> error + Accumulator" where
  "processMessages trim [] acc = Inr acc"
| "processMessages trim (msg # msgs) acc =
     (case processMessage trim msg acc of
        Inl e \<Rightarrow> Inl e
      | Inr acc1 \<Rightarrow> processMessages trim msgs acc1)"

text \<open>
  The first loop: \<open>JSON.parse\<close> of a line either throws (\<open>None\<close>, the line is
  skipped by the \<open>catch\<close>) or gives a value, kept when its \<open>type\<close> is \<open>user\<close> or
  \<open>assistant\<close>. The parser of the runtime is a parameter.
\<close>

fun collectMessages :: "(string \<Rightarrow> SessionMessage option) \<Rightarrow> string list
    \<Rightarrow> SessionMessage list" where
  "collectMessages JSON_parse [] = []"
| "collectMessages JSON_parse (line # rest) =
     (case JSON_parse line of
        None \<Rightarrow> collectMessages JSON_parse rest
      | Some parsed \<Rightarrow>
          if ev_type parsed = ''user'' \<or> ev_type parsed = ''assistant''
          then parsed # collectMessages JSON_parse rest
          else collectMessages JSON_parse rest)"

text \<open>\<open>sessionId?.match(/([a-f0-9-]{36})\.jsonl$/)?.[1]\<close>\<close>

definition isIdChar :: "char \<Rightarrow> bool" where
  "isIdChar c = (c \<in> set ''abcdef0123456789-'')"

definition matchSessionId :: "string option \<Rightarrow> string option" where
  "matchSessionId sessionId =
     (case sessionId of
        None \<Rightarrow> None
      | Some p \<Rightarrow>
          let n = length p; uuid = take 36 (drop (n - 42) p)
          in if 42 \<le> n \<and> drop (n - 6) p = ''.jsonl'' \<and> list_all isIdChar uuid
             then Some uuid else None)"

text \<open>\<open>content.trim().split('\n').filter(Boolean)\<close>\<close>

definition splitLines :: "(string \<Rightarrow> string) \<Rightarrow> string \<Rightarrow> string list" where
  "splitLines trim content = filter_Boolean (split_on (CHR 0x0A) (trim content))"

text \<open>
  Everything after the lines have been split. \<open>Date_parse\<close> is \<open>new Date(string)\<close>.
\<close>

definition parseLines :: "(string \<Rightarrow> string) \<Rightarrow> (string \<Rightarrow> SessionMessage option)
    \<Rightarrow> (string \<Rightarrow> Date) \<Rightarrow> string list \<Rightarrow> string option
    \<Rightarrow> error + ParsedSession option" where
  "parseLines trim JSON_parse Date_parse lines sessionId =
     (if lines = [] then Inr None
      else
        (case collectMessages JSON_parse lines of
           [] \<Rightarrow> Inr None
         | firstMessage # others \<Rightarrow>
             let msgs = firstMessage # others;
                 lastMessage = last msgs
             in (case processMessages trim msgs emptyAccumulator of
                   Inl e \<Rightarrow> Inl e
                 | Inr acc \<Rightarrow>
                     Inr (Some
                       \<lparr>session_id =
                          (case matchSessionId sessionId of
                             Some u \<Rightarrow> u
                           | None \<Rightarrow> or_else (ev_sessionId firstMessage) ''unknown''),
                        startedAt = Date_parse (ev_timestamp firstMessage),
                        endedAt = Date_parse (ev_timestamp lastMessage),
                        gitBranch = or_else (ev_gitBranch firstMessage) ''unknown'',
                        cwd = or_else (ev_cwd firstMessage) [],
                        version = or_else (ev_version firstMessage) [],
                        messageCount = length msgs,
                        inputTokens = acc_inputTokens acc,
                        outputTokens = acc_outputTokens acc,
                        cacheCreationTokens = acc_cacheCreationTokens acc,
                        cacheReadTokens = acc_cacheReadTokens acc,
                        userMessages = acc_userMessages acc,
                        toolsUsed = acc_toolsUsed acc,
                        filesFromToolCalls = acc_filesFromToolCalls acc,
                        modelsUsed = acc_modelsUsed acc,
                        modelTokens = acc_modelTokens acc,
                        title = None,
                        sessionType = Some ClaudeCode\<rparr>))))"

definition parseSessionContent :: "(string \<Rightarrow> string) \<Rightarrow> (string \<Rightarrow> SessionMessage option)
    \<Rightarrow> (string \<Rightarrow> Date) \<Rightarrow> string \<Rightarrow> string option
    \<Rightarrow> error + ParsedSession option" where
  "parseSessionContent trim JSON_parse Date_parse content sessionId =
     parseLines trim JSON_parse Date_parse (splitLines trim content) sessionId"

subsection \<open>parseOpenCodeSession\<close>

text \<open>
  The object the function returns also has a property \<open>directory\<close>, equal to
  \<open>cwd\<close>; \<open>ParsedSession\<close> declares no such field and nothing reads it.
\<close>

definition collectParts :: "OpenCodePart list \<Rightarrow> string list \<Rightarrow> string list" where
  "collectParts ps msgs =
     fold (\<lambda>part ms. if part_type part = ''text'' \<and> truthy (part_text part)
                      then ms @ [the (part_text part)] else ms) ps msgs"

text \<open>\<open>if (params.k) filesFromToolCalls.add(params.k)\<close>: no test for a separator.\<close>

definition addParameter :: "string option \<Rightarrow> string list \<Rightarrow> string list" where
  "addParameter p files = (if truthy p then set_add (the p) files else files)"

definition collectToolCall :: "ToolCall \<Rightarrow> Accumulator \<Rightarrow> Accumulator" where
  "collectToolCall toolCall acc =
     (let acc1 = acc\<lparr>acc_toolsUsed := set_add (tc_name toolCall) (acc_toolsUsed acc)\<rparr>
      in (case tc_parameters toolCall of
            None \<Rightarrow> acc1
          | Some params \<Rightarrow>
              acc1\<lparr>acc_filesFromToolCalls :=
                     addParameter (param_file params)
                       (addParameter (param_path params)
                          (addParameter (param_filePath params)
                             (acc_filesFromToolCalls acc1)))\<rparr>))"

definition processOpenCodeMessage :: "OpenCodeMessage \<Rightarrow> Accumulator \<Rightarrow> Accumulator" where
  "processOpenCodeMessage message acc =
     (let acc1 = (if info_role message = ''user'' then
                    (case parts message of
                       None \<Rightarrow> acc
                     | Some ps \<Rightarrow>
                         acc\<lparr>acc_userMessages := collectParts ps (acc_userMessages acc)\<rparr>)
                  else acc);
          acc2 = (case toolCalls message of
                    None \<Rightarrow> acc1
                  | Some tcs \<Rightarrow> fold collectToolCall tcs acc1)
      in (case info_model message of
            None \<Rightarrow> acc2
          | Some m \<Rightarrow> acc2\<lparr>acc_modelsUsed := set_add (modelID m) (acc_modelsUsed acc2)\<rparr>))"

definition parseOpenCodeSession :: "OpenCodeSession \<Rightarrow> ParsedSession" where
  "parseOpenCodeSession session =
     (let acc = fold processOpenCodeMessage (messages session) emptyAccumulator
      in \<lparr>session_id = info_id session,
          startedAt = newDate (info_time_created session),
          endedAt = newDate (info_time_updated session),
          gitBranch = [],
          cwd = info_directory session,
          version = [],
          messageCount = length (messages session),
          inputTokens = 0,
          outputTokens = 0,
          cacheCreationTokens = 0,
          cacheReadTokens = 0,
          userMessages = acc_userMessages acc,
          toolsUsed = acc_toolsUsed acc,
          filesFromToolCalls = acc_filesFromToolCalls acc,
          modelsUsed = acc_modelsUsed acc,
          modelTokens = [],
          title = Some (or_else (info_title session) ''Untitled Session''),
          sessionType = Some OpenCode\<rparr>)"

subsection \<open>parseSessionFile\<close>



section \<open>The search (file-based/search-opencode.ts)\<close>

text \<open>\<open>since\<close> and \<open>until\<close> are \<open>Date\<close> objects: truthy whenever they are given.\<close>

record SearchOptions =
  opt_query :: "string option"
  opt_days :: "int option"
  opt_since :: "Date option"
  opt_until :: "Date option"
  opt_tools :: "string list option"
  opt_filePattern :: "string option"
  opt_limit :: "int option"

text \<open>
  \<open>SearchResult extends ParsedSession\<close>; the search always sets \<open>relevance\<close> and sets
  none of the other optional fields.
\<close>

record SearchResult = ParsedSession +
  relevance :: nat

subsection \<open>scoreRelevance\<close>

text \<open>The inner loop over the query terms, for one lower-cased text and one weight.\<close>

definition scoreField :: "nat \<Rightarrow> string list \<Rightarrow> string \<Rightarrow> nat \<Rightarrow> nat" where
  "scoreField w queryTerms text score =
     fold (\<lambda>term sc. if js_includes text term then sc + w else sc) queryTerms score"

text \<open>
  \<open>toLowerCase\<close> is \<open>String.prototype.toLowerCase\<close> and \<open>splitWhitespace\<close> is
  \<open>split(/\s+/)\<close>. The score is a count of matches weighted by at most 15; the
  sessions and the query that reach the search keep it far below \<open>2^53\<close>, so it is
  a natural number.
\<close>

definition scoreRelevance :: "(string \<Rightarrow> string) \<Rightarrow> (string \<Rightarrow> string list)
    \<Rightarrow> 'a ParsedSession_scheme \<Rightarrow> string \<Rightarrow> nat" where
  "scoreRelevance toLowerCase splitWhitespace session query =
     (if query = [] then 1
      else
        let queryLower = toLowerCase query;
            queryTerms = filter_Boolean (splitWhitespace queryLower);
            score1 = (if truthy (title session)
                      then scoreField 15 queryTerms (toLowerCase (the (title session))) 0
                      else 0);
            score2 = fold (\<lambda>msg sc. scoreField 10 queryTerms (toLowerCase msg) sc)
                       (userMessages session) score1;
            score3 = scoreField 5 queryTerms (toLowerCase (cwd session)) score2;
            score4 = fold (\<lambda>tool sc. scoreField 3 queryTerms (toLowerCase tool) sc)
                       (toolsUsed session) score3
        in fold (\<lambda>file sc. scoreField 3 queryTerms (toLowerCase file) sc)
             (filesFromToolCalls session) score4)"

subsection \<open>matchesFilters\<close>

text \<open>
  \<open>new Date(Date.now() - options.days * 24 * 60 * 60 * 1000)\<close>, where \<open>now\<close> is the
  value of \<open>Date.now()\<close>.
\<close>

definition cutoffDate :: "int \<Rightarrow> int \<Rightarrow> Date" where
  "cutoffDate now days =
     newDate (js_sub now (js_mul (js_mul (js_mul (js_mul days 24) 60) 60) 1000))"

text \<open>A number is truthy when it is not 0 (and not \<open>NaN\<close>, which acts as an absent option).\<close>

definition matchesFilters :: "(string \<Rightarrow> string) \<Rightarrow> 'a ParsedSession_scheme \<Rightarrow> SearchOptions
    \<Rightarrow> int \<Rightarrow> bool" where
  "matchesFilters toLowerCase session options now =
     (if (case opt_since options of
            None \<Rightarrow> False
          | Some since \<Rightarrow> date_lt (endedAt session) since)
      then False
      else if (case opt_until options of
                 None \<Rightarrow> False
               | Some until \<Rightarrow> date_gt (endedAt session) until)
      then False
      else if (case opt_days options of
                 None \<Rightarrow> False
               | Some days \<Rightarrow>
                   days \<noteq> 0 \<and> date_lt (endedAt session) (cutoffDate now days))
      then False
      else if (case opt_tools options of
                 None \<Rightarrow> False
               | Some tools \<Rightarrow>
                   tools \<noteq> [] \<and>
                   \<not> list_ex (\<lambda>tool. list_ex (\<lambda>t. js_includes (toLowerCase t) (toLowerCase tool))
                                        (toolsUsed session)) tools)
      then False
      else if truthy (opt_filePattern options) \<and>
              \<not> list_ex (\<lambda>f. js_includes (toLowerCase f)
                                (toLowerCase (the (opt_filePattern options))))
                   (filesFromToolCalls session)
      then False
      else True)"

subsection \<open>searchSessions\<close>

text \<open>
  \<open>Array.prototype.sort\<close> with a comparator is a stable sort, and it reads a
  comparator result of \<open>NaN\<close> (\<open>None\<close>) as 0. For a consistent comparator every
  stable sort returns the list below, in which an element goes before the first one it
  does not compare greater than; for an inconsistent one the order the runtime returns
  is its own choice.
\<close>

fun compareValue :: "int option \<Rightarrow> int" where
  "compareValue None = 0"
| "compareValue (Some v) = v"

fun insert_cmp :: "('a \<Rightarrow> 'a \<Rightarrow> int option) \<Rightarrow> 'a \<Rightarrow> 'a list \<Rightarrow> 'a list" where
  "insert_cmp cmp x [] = [x]"
| "insert_cmp cmp x (y # ys) =
     (if compareValue (cmp x y) \<le> 0 then x # y # ys else y # insert_cmp cmp x ys)"

definition sort_cmp :: "('a \<Rightarrow> 'a \<Rightarrow> int option) \<Rightarrow> 'a list \<Rightarrow> 'a list" where
  "sort_cmp cmp xs = foldr (insert_cmp cmp) xs []"

text \<open>\<open>xs.slice(0, e)\<close>: a negative end counts from the end of the array.\<close>

definition slice0 :: "'a list \<Rightarrow> int \<Rightarrow> 'a list" where
  "slice0 xs e = (if e < 0 then take (nat (int (length xs) + e)) xs else take (nat e) xs)"

text \<open>The difference of two time values is \<open>NaN\<close> when one of the dates is invalid.\<close>

definition compareResults :: "SearchResult \<Rightarrow> SearchResult \<Rightarrow> int option" where
  "compareResults a b =
     (if relevance a \<noteq> relevance b
      then Some (js_sub (int (relevance b)) (int (relevance a)))
      else (case (getTime (endedAt b), getTime (endedAt a)) of
              (Some tb, Some ta) \<Rightarrow> Some (js_sub tb ta)
            | _ \<Rightarrow> None))"

text \<open>
  The body of the loop over the session identifiers. \<open>exportSession\<close> runs an external
  command; its outcome is the input: \<open>None\<close> when it returned \<open>null\<close>. \<open>now\<close> is
  the value of \<open>Date.now()\<close> in this iteration.
\<close>

definition searchStep :: "(string \<Rightarrow> string) \<Rightarrow> (string \<Rightarrow> string list) \<Rightarrow> SearchOptions
    \<Rightarrow> int \<Rightarrow> OpenCodeSession option \<Rightarrow> SearchResult list \<Rightarrow> SearchResult list" where
  "searchStep toLowerCase splitWhitespace options now rawSession results =
     (case rawSession of
        None \<Rightarrow> results
      | Some raw \<Rightarrow>
          let session = parseOpenCodeSession raw
          in if userMessages session = [] then results
             else if \<not> matchesFilters toLowerCase session options now then results
             else
               let rel = (if truthy (opt_query options)
                          then scoreRelevance toLowerCase splitWhitespace session
                                 (the (opt_query options))
                          else 1)
               in if truthy (opt_query options) \<and> rel = 0 then results
                  else results @ [ParsedSession.extend session (SearchResult.fields rel)])"

text \<open>
  The loop \<open>for (let i = 0; i < sessionIDs.length; i++)\<close>. \<open>Date_now i\<close> is what
  \<open>Date.now()\<close> returns while the session at index \<open>i\<close> is filtered.
\<close>

fun searchLoop :: "(string \<Rightarrow> string) \<Rightarrow> (string \<Rightarrow> string list) \<Rightarrow> SearchOptions
    \<Rightarrow> (nat \<Rightarrow> int) \<Rightarrow> nat \<Rightarrow> OpenCodeSession option list \<Rightarrow> SearchResult list
    \<Rightarrow> SearchResult list" where
  "searchLoop toLowerCase splitWhitespace options Date_now i [] results = results"
| "searchLoop toLowerCase splitWhitespace options Date_now i (rawSession # rest) results =
     searchLoop toLowerCase splitWhitespace options Date_now (Suc i) rest
       (searchStep toLowerCase splitWhitespace options (Date_now i) rawSession results)"

text \<open>\<open>options.limit || 20\<close>: 0 counts as absent.\<close>

definition searchSessions :: "(string \<Rightarrow> string) \<Rightarrow> (string \<Rightarrow> string list) \<Rightarrow> SearchOptions
    \<Rightarrow> (nat \<Rightarrow> int) \<Rightarrow> OpenCodeSession option list \<Rightarrow> SearchResult list" where
  "searchSessions toLowerCase splitWhitespace options Date_now exports =
     (let results = searchLoop toLowerCase splitWhitespace options Date_now 0 exports [];
          sorted = sort_cmp compareResults results;
          limit = (case opt_limit options of
                     None \<Rightarrow> 20
                   | Some l \<Rightarrow> if l = 0 then 20 else l)
      in slice0 sorted limit)"

section \<open>Quantities the specification speaks of\<close>

text \<open>Removing from both ends of a string the characters of a class.\<close>

definition stripBoth :: "(char \<Rightarrow> bool) \<Rightarrow> string \<Rightarrow> string" where
  "stripBoth ws s = rev (dropWhile ws (rev (dropWhile ws s)))"

text \<open>The element-wise sum of one counter over all entries of \<open>modelTokens\<close>.\<close>

definition sumTokens :: "(ModelTokens \<Rightarrow> int) \<Rightarrow> (string \<times> ModelTokens) list \<Rightarrow> int" where
  "sumTokens f mt = sum_list (map (\<lambda>entry. f (snd entry)) mt)"

text \<open>The usage an event adds to the counters, and the usages of a list of events.\<close>

definition usageOf :: "SessionMessage \<Rightarrow> TokenUsage list" where
  "usageOf msg =
     (if ev_type msg = ''assistant'' then
        (case ev_message msg of
           None \<Rightarrow> []
         | Some m \<Rightarrow> (case msg_usage m of None \<Rightarrow> [] | Some u \<Rightarrow> [u]))
      else [])"

definition usagesOf :: "SessionMessage list \<Rightarrow> TokenUsage list" where
  "usagesOf msgs = concat (map usageOf msgs)"

text \<open>
  An assistant event that carries usage also names a model, and the name is the key of
  a bucket of its own.
\<close>

definition usageHasBucket :: "SessionMessage \<Rightarrow> bool" where
  "usageHasBucket msg =
     (case ev_message msg of
        None \<Rightarrow> True
      | Some m \<Rightarrow>
          ev_type msg = ''assistant'' \<and> msg_usage m \<noteq> None \<longrightarrow>
            truthy (msg_model m) \<and> the (msg_model m) \<notin> set Object_prototype_properties)"

text \<open>The counters of a usage are not negative.\<close>

definition nonNegative :: "TokenUsage \<Rightarrow> bool" where
  "nonNegative u =
     (0 \<le> or_zero (input_tokens u) \<and> 0 \<le> or_zero (output_tokens u)
      \<and> 0 \<le> or_zero (cache_creation_input_tokens u)
      \<and> 0 \<le> or_zero (cache_read_input_tokens u))"

text \<open>The four counters, as a usage, a bucket and the running totals hold them.\<close>

datatype Counter = CInput | COutput | CCacheCreation | CCacheRead

fun usageCounter :: "Counter \<Rightarrow> TokenUsage \<Rightarrow> int" where
  "usageCounter CInput u = or_zero (input_tokens u)"
| "usageCounter COutput u = or_zero (output_tokens u)"
| "usageCounter CCacheCreation u = or_zero (cache_creation_input_tokens u)"
| "usageCounter CCacheRead u = or_zero (cache_read_input_tokens u)"

fun bucketCounter :: "Counter \<Rightarrow> ModelTokens \<Rightarrow> int" where
  "bucketCounter CInput b = tok_input b"
| "bucketCounter COutput b = tok_output b"
| "bucketCounter CCacheCreation b = tok_cacheCreation b"
| "bucketCounter CCacheRead b = tok_cacheRead b"

fun totalCounter :: "Counter \<Rightarrow> Accumulator \<Rightarrow> int" where
  "totalCounter CInput acc = acc_inputTokens acc"
| "totalCounter COutput acc = acc_outputTokens acc"
| "totalCounter CCacheCreation acc = acc_cacheCreationTokens acc"
| "totalCounter CCacheRead acc = acc_cacheReadTokens acc"

text \<open>The exact sum of one counter over a list of usages.\<close>

definition counterSum :: "Counter \<Rightarrow> TokenUsage list \<Rightarrow> int" where
  "counterSum c us = sum_list (map (usageCounter c) us)"

text \<open>No counter adds up to more than \<open>2^53\<close>, up to where every integer is a double.\<close>

definition withinRange :: "TokenUsage list \<Rightarrow> bool" where
  "withinRange us =
     (counterSum CInput us \<le> 2 ^ 53 \<and> counterSum COutput us \<le> 2 ^ 53
      \<and> counterSum CCacheCreation us \<le> 2 ^ 53 \<and> counterSum CCacheRead us \<le> 2 ^ 53)"

text \<open>
  The parser can read an event: a user or assistant event has a \<open>message\<close>, and the
  content array of an assistant event holds no \<open>null\<close>. Events of other types are
  not read.
\<close>

definition readable :: "SessionMessage \<Rightarrow> bool" where
  "readable msg =
     (if ev_type msg = ''user'' then ev_message msg \<noteq> None
      else if ev_type msg = ''assistant'' then
        (case ev_message msg of
           None \<Rightarrow> False
         | Some m \<Rightarrow>
             (case msg_content m of
                ArrayContent blocks \<Rightarrow> None \<notin> set blocks
              | _ \<Rightarrow> True))
      else True)"

text \<open>What one retained event adds to \<open>userMessages\<close>.\<close>

definition userText :: "(string \<Rightarrow> string) \<Rightarrow> SessionMessage \<Rightarrow> string list" where
  "userText trim msg =
     (if ev_type msg = ''user'' then
        (case ev_message msg of
           None \<Rightarrow> []
         | Some m \<Rightarrow>
             (case msg_content m of
                StringContent c \<Rightarrow> if trim c \<noteq> [] then [c] else []
              | _ \<Rightarrow> []))
      else [])"

text \<open>Every string collected so far has a path separator.\<close>

definition filesArePaths :: "Accumulator \<Rightarrow> bool" where
  "filesArePaths acc = (\<forall>f\<in>set (acc_filesFromToolCalls acc). looksLikePath f)"

text \<open>The query terms: the lower-cased query split at white space, empty pieces dropped.\<close>

definition queryTermsOf :: "(string \<Rightarrow> string) \<Rightarrow> (string \<Rightarrow> string list) \<Rightarrow> string
    \<Rightarrow> string list" where
  "queryTermsOf toLowerCase splitWhitespace query =
     filter_Boolean (splitWhitespace (toLowerCase query))"

text \<open>How many of the query terms occur in a text.\<close>

definition matchCount :: "string list \<Rightarrow> string \<Rightarrow> nat" where
  "matchCount queryTerms text = length (filter (\<lambda>term. js_includes text term) queryTerms)"

text \<open>
  A term appears in the title, a user message, the working directory, a tool name or a
  touched file path, compared in lower case.
\<close>

definition termAppears :: "(string \<Rightarrow> string) \<Rightarrow> 'a ParsedSession_scheme \<Rightarrow> string \<Rightarrow> bool" where
  "termAppears toLowerCase session term =
     ((truthy (title session) \<and> js_includes (toLowerCase (the (title session))) term)
      \<or> (\<exists>msg\<in>set (userMessages session). js_includes (toLowerCase msg) term)
      \<or> js_includes (toLowerCase (cwd session)) term
      \<or> (\<exists>tool\<in>set (toolsUsed session). js_includes (toLowerCase tool) term)
      \<or> (\<exists>file\<in>set (filesFromToolCalls session). js_includes (toLowerCase file) term))"

text \<open>The tool rule and the file rule of the filter, as the specification words them.\<close>

definition toolRule :: "(string \<Rightarrow> string) \<Rightarrow> 'a ParsedSession_scheme \<Rightarrow> SearchOptions \<Rightarrow> bool" where
  "toolRule toLowerCase session options =
     (case opt_tools options of
        None \<Rightarrow> True
      | Some tools \<Rightarrow>
          tools = [] \<or>
          (\<exists>tool\<in>set tools. \<exists>t\<in>set (toolsUsed session).
              js_includes (toLowerCase t) (toLowerCase tool)))"

definition fileRule :: "(string \<Rightarrow> string) \<Rightarrow> 'a ParsedSession_scheme \<Rightarrow> SearchOptions \<Rightarrow> bool" where
  "fileRule toLowerCase session options =
     (truthy (opt_filePattern options) \<longrightarrow>
        (\<exists>f\<in>set (filesFromToolCalls session).
            js_includes (toLowerCase f) (toLowerCase (the (opt_filePattern options)))))"

text \<open>
  The date rule rejects: \<open>endedAt\<close> is a valid date and lies before a valid \<open>since\<close>,
  after a valid \<open>until\<close>, or before a valid cut-off of a \<open>days\<close> that is not 0.
\<close>

definition dateRejects :: "'a ParsedSession_scheme \<Rightarrow> SearchOptions \<Rightarrow> int \<Rightarrow> bool" where
  "dateRejects session options now =
     (case endedAt session of
        InvalidDate \<Rightarrow> False
      | ValidDate t \<Rightarrow>
          (case opt_since options of Some (ValidDate a) \<Rightarrow> t < a | _ \<Rightarrow> False)
          \<or> (case opt_until options of Some (ValidDate b) \<Rightarrow> b < t | _ \<Rightarrow> False)
          \<or> (case opt_days options of
                None \<Rightarrow> False
              | Some days \<Rightarrow>
                  days \<noteq> 0 \<and>
                  (case cutoffDate now days of ValidDate c \<Rightarrow> t < c | InvalidDate \<Rightarrow> False)))"

text \<open>\<open>options.limit || 20\<close>\<close>

definition effectiveLimit :: "SearchOptions \<Rightarrow> int" where
  "effectiveLimit options =
     (case opt_limit options of None \<Rightarrow> 20 | Some l \<Rightarrow> if l = 0 then 20 else l)"

text \<open>The \<open>time.updated\<close> of every export makes a valid date.\<close>

definition validDates :: "OpenCodeSession option list \<Rightarrow> bool" where
  "validDates exports =
     list_all (\<lambda>rawSession. case rawSession of
                                None \<Rightarrow> True
                              | Some raw \<Rightarrow> \<bar>info_time_updated raw\<bar> \<le> maxTime) exports"

text \<open>What holds of every result the search loop pushes.\<close>

definition retained :: "(string \<Rightarrow> string) \<Rightarrow> (string \<Rightarrow> string list) \<Rightarrow> SearchOptions
    \<Rightarrow> SearchResult \<Rightarrow> bool" where
  "retained toLowerCase splitWhitespace options r =
     (userMessages r \<noteq> []
      \<and> (truthy (opt_query options) \<longrightarrow>
           relevance r = scoreRelevance toLowerCase splitWhitespace r (the (opt_query options))
           \<and> relevance r \<noteq> 0))"

section \<open>Example inputs\<close>

text \<open>
  Lines of a transcript and the values \<open>JSON.parse\<close> gives for them. A string field
  that is absent from the JSON text is the empty string in the record: both are falsy.
  The examples are ASCII text, on which the string primitives of the runtime are the
  ones below.
\<close>

definition isWhitespace :: "char \<Rightarrow> bool" where
  "isWhitespace c = (c \<in> set [CHR 0x09, CHR 0x0A, CHR 0x0B, CHR 0x0C, CHR 0x0D, CHR 0x20])"

definition ascii_trim :: "string \<Rightarrow> string" where
  "ascii_trim s = stripBoth isWhitespace s"

function split_ws :: "string \<Rightarrow> string \<Rightarrow> string list" where
  "split_ws cur [] = [cur]"
| "split_ws cur (c # cs) =
     (if isWhitespace c then cur # split_ws [] (dropWhile isWhitespace cs)
      else split_ws (cur @ [c]) cs)"
  by pat_completeness auto
termination
  by (relation "measure (\<lambda>(cur, s). length s)")
     (auto simp: less_Suc_eq_le length_dropWhile_le)

definition ascii_split :: "string \<Rightarrow> string list" where
  "ascii_split s = split_ws [] s"

definition toLowerChar :: "char \<Rightarrow> char" where
  "toLowerChar c =
     (let n = (of_char c :: nat) in if 65 \<le> n \<and> n \<le> 90 then char_of (n + 32) else c)"

definition ascii_toLowerCase :: "string \<Rightarrow> string" where
  "ascii_toLowerCase s = map toLowerChar s"

definition line_user :: string where
  \<open>line_user = ''{"type":"user","message":{"role":"user","content":"build septa tracker"},"timestamp":"2025-01-15T10:30:00Z"}''\<close>

definition event_user :: SessionMessage where
  "event_user =
     \<lparr>ev_type = ''user'',
      ev_message = Some \<lparr>msg_content = StringContent ''build septa tracker'',
                    msg_model = None, msg_usage = None\<rparr>,
      ev_sessionId = [], ev_timestamp = ''2025-01-15T10:30:00Z'',
      ev_gitBranch = [], ev_cwd = [], ev_version = []\<rparr>"

definition line_user_padded :: string where
  \<open>line_user_padded = ''{"type":"user","message":{"role":"user","content":" ship it "},"timestamp":"2025-01-15T10:32:00Z"}''\<close>

definition event_user_padded :: SessionMessage where
  "event_user_padded =
     \<lparr>ev_type = ''user'',
      ev_message = Some \<lparr>msg_content = StringContent '' ship it '',
                    msg_model = None, msg_usage = None\<rparr>,
      ev_sessionId = [], ev_timestamp = ''2025-01-15T10:32:00Z'',
      ev_gitBranch = [], ev_cwd = [], ev_version = []\<rparr>"

definition line_user_blank :: string where
  \<open>line_user_blank = ''{"type":"user","message":{"role":"user","content":"   "},"timestamp":"2025-01-15T10:32:00Z"}''\<close>

definition event_user_blank :: SessionMessage where
  "event_user_blank =
     \<lparr>ev_type = ''user'',
      ev_message = Some \<lparr>msg_content = StringContent ''   '',
                    msg_model = None, msg_usage = None\<rparr>,
      ev_sessionId = [], ev_timestamp = ''2025-01-15T10:32:00Z'',
      ev_gitBranch = [], ev_cwd = [], ev_version = []\<rparr>"

definition line_user_blocks :: string where
  \<open>line_user_blocks = ''{"type":"user","message":{"role":"user","content":[{"type":"text","text":"hello"}]},"timestamp":"2025-01-15T10:32:00Z"}''\<close>

definition event_user_blocks :: SessionMessage where
  "event_user_blocks =
     \<lparr>ev_type = ''user'',
      ev_message =
        Some \<lparr>msg_content = ArrayContent
           [Some \<lparr>block_type = ''text'', block_name = None, block_input = None\<rparr>],
         msg_model = None, msg_usage = None\<rparr>,
      ev_sessionId = [], ev_timestamp = ''2025-01-15T10:32:00Z'',
      ev_gitBranch = [], ev_cwd = [], ev_version = []\<rparr>"

definition line_assistant :: string where
  \<open>line_assistant = ''{"type":"assistant","message":{"role":"assistant","model":"m1","content":[{"type":"tool_use","name":"Edit","input":{"file_path":"src/septa.ts"}}],"usage":{"input_tokens":5,"output_tokens":7}},"timestamp":"2025-01-15T10:31:00Z"}''\<close>

definition event_assistant :: SessionMessage where
  "event_assistant =
     \<lparr>ev_type = ''assistant'',
      ev_message =
        Some \<lparr>msg_content = ArrayContent
           [Some \<lparr>block_type = ''tool_use'', block_name = Some ''Edit'',
             block_input = Some [(''file_path'', JStr ''src/septa.ts'')]\<rparr>],
         msg_model = Some ''m1'',
         msg_usage = Some \<lparr>input_tokens = Some 5, output_tokens = Some 7,
                            cache_creation_input_tokens = None,
                            cache_read_input_tokens = None\<rparr>\<rparr>,
      ev_sessionId = [], ev_timestamp = ''2025-01-15T10:31:00Z'',
      ev_gitBranch = [], ev_cwd = [], ev_version = []\<rparr>"

definition line_assistant_no_model :: string where
  \<open>line_assistant_no_model = ''{"type":"assistant","message":{"role":"assistant","content":[],"usage":{"input_tokens":5,"output_tokens":7}},"timestamp":"2025-01-15T10:31:00Z"}''\<close>

definition event_assistant_no_model :: SessionMessage where
  "event_assistant_no_model =
     \<lparr>ev_type = ''assistant'',
      ev_message =
        Some \<lparr>msg_content = ArrayContent [],
         msg_model = None,
         msg_usage = Some \<lparr>input_tokens = Some 5, output_tokens = Some 7,
                            cache_creation_input_tokens = None,
                            cache_read_input_tokens = None\<rparr>\<rparr>,
      ev_sessionId = [], ev_timestamp = ''2025-01-15T10:31:00Z'',
      ev_gitBranch = [], ev_cwd = [], ev_version = []\<rparr>"

definition line_summary :: string where
  \<open>line_summary = ''{"type":"summary","summary":"septa work"}''\<close>

definition event_summary :: SessionMessage where
  "event_summary =
     \<lparr>ev_type = ''summary'',
      ev_message = None,
      ev_sessionId = [], ev_timestamp = [],
      ev_gitBranch = [], ev_cwd = [], ev_version = []\<rparr>"

text \<open>A line cut off in the middle: \<open>JSON.parse\<close> throws.\<close>

definition line_malformed :: string where
  \<open>line_malformed = ''{"type":"user","message":''\<close>

text \<open>
  A user event without \<open>message\<close>, with properties named \<open>info\<close> and \<open>messages\<close>,
  and a well-formed one with the same two properties.
\<close>

definition line_no_message :: string where
  \<open>line_no_message = ''{"type":"user","info":"x","messages":"y"}''\<close>

definition event_no_message :: SessionMessage where
  "event_no_message =
     \<lparr>ev_type = ''user'', ev_message = None,
      ev_sessionId = [], ev_timestamp = [],
      ev_gitBranch = [], ev_cwd = [], ev_version = []\<rparr>"

definition line_user_info :: string where
  \<open>line_user_info = ''{"type":"user","message":{"role":"user","content":"ship it"},"info":1,"messages":2,"timestamp":"2025-01-15T10:30:00Z"}''\<close>

definition event_user_info :: SessionMessage where
  "event_user_info =
     \<lparr>ev_type = ''user'',
      ev_message = Some \<lparr>msg_content = StringContent ''ship it'',
                    msg_model = None, msg_usage = None\<rparr>,
      ev_sessionId = [], ev_timestamp = ''2025-01-15T10:30:00Z'',
      ev_gitBranch = [], ev_cwd = [], ev_version = []\<rparr>"

text \<open>Two assistant events whose counters add up beyond \<open>2^53\<close>.\<close>

definition line_assistant_big :: string where
  \<open>line_assistant_big = ''{"type":"assistant","message":{"role":"assistant","model":"m1","content":[],"usage":{"input_tokens":9007199254740992}},"timestamp":"2025-01-15T10:31:00Z"}''\<close>

definition event_assistant_big :: SessionMessage where
  "event_assistant_big =
     \<lparr>ev_type = ''assistant'',
      ev_message =
        Some \<lparr>msg_content = ArrayContent [],
         msg_model = Some ''m1'',
         msg_usage = Some \<lparr>input_tokens = Some 9007199254740992, output_tokens = None,
                            cache_creation_input_tokens = None,
                            cache_read_input_tokens = None\<rparr>\<rparr>,
      ev_sessionId = [], ev_timestamp = ''2025-01-15T10:31:00Z'',
      ev_gitBranch = [], ev_cwd = [], ev_version = []\<rparr>"

definition line_assistant_one :: string where
  \<open>line_assistant_one = ''{"type":"assistant","message":{"role":"assistant","model":"m2","content":[],"usage":{"input_tokens":1}},"timestamp":"2025-01-15T10:32:00Z"}''\<close>

definition event_assistant_one :: SessionMessage where
  "event_assistant_one =
     \<lparr>ev_type = ''assistant'',
      ev_message =
        Some \<lparr>msg_content = ArrayContent [],
         msg_model = Some ''m2'',
         msg_usage = Some \<lparr>input_tokens = Some 1, output_tokens = None,
                            cache_creation_input_tokens = None,
                            cache_read_input_tokens = None\<rparr>\<rparr>,
      ev_sessionId = [], ev_timestamp = ''2025-01-15T10:32:00Z'',
      ev_gitBranch = [], ev_cwd = [], ev_version = []\<rparr>"

definition example_JSON_parse :: "string \<Rightarrow> SessionMessage option" where
  "example_JSON_parse line =
     (if line = line_user then Some event_user
      else if line = line_user_padded then Some event_user_padded
      else if line = line_user_blank then Some event_user_blank
      else if line = line_user_blocks then Some event_user_blocks
      else if line = line_assistant then Some event_assistant
      else if line = line_assistant_no_model then Some event_assistant_no_model
      else if line = line_summary then Some event_summary
      else if line = line_no_message then Some event_no_message
      else if line = line_user_info then Some event_user_info
      else if line = line_assistant_big then Some event_assistant_big
      else if line = line_assistant_one then Some event_assistant_one
      else None)"

text \<open>\<open>new Date(string)\<close> on the time stamps of the examples; an empty one is no date.\<close>

definition example_Date_parse :: "string \<Rightarrow> Date" where
  "example_Date_parse ts =
     (if ts = ''2025-01-15T10:30:00Z'' then ValidDate 1736937000000
      else if ts = ''2025-01-15T10:31:00Z'' then ValidDate 1736937060000
      else if ts = ''2025-01-15T10:32:00Z'' then ValidDate 1736937120000
      else InvalidDate)"


definition example_export :: OpenCodeSession where
  "example_export =
     \<lparr>info_id = ''ses_1'', info_directory = ''/home/u/septa'', info_title = ''Septa App'',
      info_time_created = 1000, info_time_updated = 2000,
      messages =
        [\<lparr>info_role = ''user'', info_model = None,
          parts = Some [\<lparr>part_type = ''text'', part_text = Some ''fix the bug''\<rparr>],
          toolCalls = None\<rparr>,
         \<lparr>info_role = ''assistant'', info_model = None,
          parts = None,
          toolCalls = Some
            [\<lparr>tc_name = ''read'',
              tc_parameters = Some \<lparr>param_filePath = Some ''README.md'',
                                     param_path = None, param_file = None\<rparr>\<rparr>]\<rparr>]\<rparr>"



text \<open>More exports, and the outcomes of \<open>exportSession\<close> for six identifiers.\<close>

definition export_later :: OpenCodeSession where
  "export_later = example_export\<lparr>info_id := ''ses_2'', info_time_updated := 3000\<rparr>"

definition export_messages_only :: OpenCodeSession where
  "export_messages_only =
     \<lparr>info_id = ''ses_3'', info_directory = ''/tmp'', info_title = ''Notes'',
      info_time_created = 4000, info_time_updated = 5000,
      messages =
        [\<lparr>info_role = ''user'', info_model = None,
          parts = Some [\<lparr>part_type = ''text'', part_text = Some ''septa tracker''\<rparr>],
          toolCalls = None\<rparr>]\<rparr>"

definition export_unrelated :: OpenCodeSession where
  "export_unrelated =
     \<lparr>info_id = ''ses_4'', info_directory = ''/home/u/billing'', info_title = ''Billing'',
      info_time_created = 6000, info_time_updated = 7000,
      messages =
        [\<lparr>info_role = ''user'', info_model = None,
          parts = Some [\<lparr>part_type = ''text'', part_text = Some ''send the invoice''\<rparr>],
          toolCalls = None\<rparr>]\<rparr>"

definition export_no_user :: OpenCodeSession where
  "export_no_user =
     \<lparr>info_id = ''ses_5'', info_directory = ''/home/u/septa'', info_title = ''Septa App'',
      info_time_created = 8000, info_time_updated = 9000,
      messages =
        [\<lparr>info_role = ''assistant'', info_model = None,
          parts = None,
          toolCalls = Some [\<lparr>tc_name = ''read'', tc_parameters = None\<rparr>]\<rparr>]\<rparr>"

definition example_exports :: "OpenCodeSession option list" where
  "example_exports =
     [Some example_export, None, Some export_messages_only, Some export_later,
      Some export_unrelated, Some export_no_user]"

definition no_options :: SearchOptions where
  "no_options =
     \<lparr>opt_query = None, opt_days = None, opt_since = None, opt_until = None,
      opt_tools = None, opt_filePattern = None, opt_limit = None\<rparr>"

definition septa_options :: SearchOptions where
  "septa_options = no_options\<lparr>opt_query := Some ''septa'', opt_limit := Some 2\<rparr>"

section \<open>Rounding\<close>

lemma bitlen_bounds: "0 < n \<Longrightarrow> 2 ^ (bitlen n - 1) \<le> n \<and> n < 2 ^ bitlen n"
proof (induction n rule: bitlen.induct)
  case (1 n)
  show ?case
  proof (cases "n = 1")
    case True
    have "bitlen 1 = 1"
      by (simp add: bitlen.simps [of 1] bitlen.simps [of 0])
    with True show ?thesis by simp
  next
    case False
    with "1.prems" have h: "0 < n div 2" by simp
    have ih: "2 ^ (bitlen (n div 2) - 1) \<le> n div 2 \<and> n div 2 < 2 ^ bitlen (n div 2)"
      using "1.IH" "1.prems" h by simp
    have b: "bitlen n = Suc (bitlen (n div 2))"
      using "1.prems" by (simp add: bitlen.simps [of n])
    have p: "0 < bitlen (n div 2)"
      using h by (simp add: bitlen.simps [of "n div 2"])
    then obtain k where k: "bitlen (n div 2) = Suc k"
      by (cases "bitlen (n div 2)") auto
    show ?thesis
      using ih unfolding b k by simp linarith
  qed
qed

lemma round_to_double_exact: "\<bar>x\<bar> \<le> 2 ^ 53 \<Longrightarrow> round_to_double x = x"
  by (auto simp: round_to_double_def round_magnitude_def)

lemma round_magnitude_large:
  assumes "2 ^ 53 < m"
  shows "2 ^ 53 \<le> round_magnitude m"
proof -
  have pos: "0 < m" using assms by (smt (verit) zero_less_power)
  define k where "k = bitlen m - 54"
  have bl: "2 ^ (bitlen m - 1) \<le> m" "m < 2 ^ bitlen m"
    using bitlen_bounds [OF pos] by simp_all
  have "(2::int) ^ 53 < 2 ^ bitlen m" using assms bl(2) by linarith
  then have "53 < bitlen m"
    using power_less_imp_less_exp [of "2::int" 53 "bitlen m"] by simp
  then have b: "bitlen m = k + 54" by (simp add: k_def)
  define q :: int where "q = 2 ^ (bitlen m - 53)"
  have q: "q = 2 * 2 ^ k" by (simp add: q_def b)
  have qpos: "0 < q" by (simp add: q_def)
  have m: "2 ^ 52 * q \<le> m"
    using bl(1) by (simp add: b q power_add mult.commute)
  have "2 ^ 52 \<le> m div q"
    using m qpos by (metis zdiv_mono1 nonzero_mult_div_cancel_right less_irrefl)
  then have lo: "2 ^ 52 * q \<le> (m div q) * q"
    using qpos by simp
  have "(2::int) ^ 53 \<le> 2 ^ 52 * q"
    using q by (simp add: power_add)
  with lo have l: "2 ^ 53 \<le> (m div q) * q" by linarith
  show ?thesis
    using assms l qpos unfolding round_magnitude_def Let_def q_def [symmetric]
    by auto
qed

lemma round_to_double_large: "2 ^ 53 < \<bar>x\<bar> \<Longrightarrow> 2 ^ 53 \<le> \<bar>round_to_double x\<bar>"
  using round_magnitude_large [of x] round_magnitude_large [of "- x"]
  by (auto simp: round_to_double_def abs_if split: if_splits)

lemma round_to_double_sign:
  "round_to_double x \<le> 0 \<longleftrightarrow> x \<le> 0"
proof (cases "\<bar>x\<bar> \<le> 2 ^ 53")
  case True
  then show ?thesis by (simp add: round_to_double_exact)
next
  case False
  then have l: "2 ^ 53 < \<bar>x\<bar>" by simp
  show ?thesis
    using round_magnitude_large [of x] round_magnitude_large [of "- x"] l
    by (auto simp: round_to_double_def abs_if split: if_splits)
qed

lemma newDate_round: "newDate (round_to_double x) = newDate x"
proof (cases "\<bar>x\<bar> \<le> 2 ^ 53")
  case True
  then show ?thesis by (simp add: round_to_double_exact)
next
  case False
  then show ?thesis
    using round_to_double_large [of x] by (simp add: newDate_def maxTime_def)
qed

section \<open>Properties of the parser\<close>

subsection \<open>Skipping lines\<close>

lemma collectMessages_append:
  "collectMessages P (xs @ ys) = collectMessages P xs @ collectMessages P ys"
  by (induction xs) (auto split: option.splits)

lemma collectMessages_skip:
  assumes "P bad = None \<or> (\<exists>parsed. P bad = Some parsed \<and> ev_type parsed \<noteq> ''user'' \<and> ev_type parsed \<noteq> ''assistant'')"
  shows "collectMessages P (pre @ bad # post) = collectMessages P (pre @ post)"
proof -
  have "collectMessages P (bad # post) = collectMessages P post"
    using assms by auto
  then show ?thesis
    by (simp add: collectMessages_append)
qed

lemma parseLines_skip:
  assumes "P bad = None \<or> (\<exists>parsed. P bad = Some parsed \<and> ev_type parsed \<noteq> ''user'' \<and> ev_type parsed \<noteq> ''assistant'')"
  shows "parseLines trim P D (pre @ bad # post) sid = parseLines trim P D (pre @ post) sid"
proof (cases "pre @ post = []")
  case True
  then have "collectMessages P (pre @ bad # post) = []"
    using collectMessages_skip [of P bad pre post] assms by simp
  with True show ?thesis by (simp add: parseLines_def)
next
  case False
  then show ?thesis
    using collectMessages_skip [of P bad pre post] assms by (simp add: parseLines_def)
qed

lemma split_on_not_Nil: "split_on c xs \<noteq> []"
  by (induction xs) (auto split: list.splits)

lemma split_on_append: "split_on c (xs @ c # ys) = split_on c xs @ split_on c ys"
proof (induction xs)
  case Nil
  then show ?case by simp
next
  case (Cons x xs)
  then show ?case
    using split_on_not_Nil [of c xs] by (cases "split_on c xs") auto
qed

lemma split_on_single: "c \<notin> set xs \<Longrightarrow> split_on c xs = [xs]"
  by (induction xs) auto

lemma stripBoth_middle:
  assumes "\<exists>x\<in>set a. \<not> ws x" and "\<exists>y\<in>set b. \<not> ws y"
  shows "stripBoth ws (a @ m @ b) = dropWhile ws a @ m @ rev (dropWhile ws (rev b))"
proof -
  obtain x where x: "x \<in> set a" "\<not> ws x" using assms(1) by blast
  obtain y where y: "y \<in> set (rev b)" "\<not> ws y" using assms(2) by auto
  have 1: "dropWhile ws (a @ m @ b) = dropWhile ws a @ m @ b"
    using x by (rule dropWhile_append1)
  have 2: "dropWhile ws (rev b @ rev m @ rev (dropWhile ws a))
      = dropWhile ws (rev b) @ rev m @ rev (dropWhile ws a)"
    using y by (rule dropWhile_append1)
  show ?thesis
    unfolding stripBoth_def 1 using 2 by simp
qed

lemma splitLines_embedded:
  assumes "\<forall>s. trim s = stripBoth ws s" and "CHR 0x0A \<notin> set bad"
    and "\<exists>x\<in>set a. \<not> ws x" and "\<exists>y\<in>set b. \<not> ws y"
  shows "splitLines trim (a @ [CHR 0x0A] @ bad @ [CHR 0x0A] @ b)
       = filter_Boolean (split_on (CHR 0x0A) (dropWhile ws a)) @ filter_Boolean [bad]
         @ filter_Boolean (split_on (CHR 0x0A) (rev (dropWhile ws (rev b))))"
    and "splitLines trim (a @ [CHR 0x0A] @ b)
       = filter_Boolean (split_on (CHR 0x0A) (dropWhile ws a))
         @ filter_Boolean (split_on (CHR 0x0A) (rev (dropWhile ws (rev b))))"
proof -
  let ?a = "dropWhile ws a" and ?b = "rev (dropWhile ws (rev b))"
  have "stripBoth ws (a @ ([CHR 0x0A] @ bad @ [CHR 0x0A]) @ b) = ?a @ ([CHR 0x0A] @ bad @ [CHR 0x0A]) @ ?b"
    using assms(3,4) by (rule stripBoth_middle)
  then have "trim (a @ [CHR 0x0A] @ bad @ [CHR 0x0A] @ b) = ?a @ CHR 0x0A # (bad @ CHR 0x0A # ?b)"
    using assms(1) by simp
  then show "splitLines trim (a @ [CHR 0x0A] @ bad @ [CHR 0x0A] @ b)
       = filter_Boolean (split_on (CHR 0x0A) ?a) @ filter_Boolean [bad]
         @ filter_Boolean (split_on (CHR 0x0A) ?b)"
    using assms(2)
    by (simp add: splitLines_def split_on_append split_on_single filter_Boolean_def)
  have "stripBoth ws (a @ [CHR 0x0A] @ b) = ?a @ [CHR 0x0A] @ ?b"
    using assms(3,4) by (rule stripBoth_middle)
  then have "trim (a @ [CHR 0x0A] @ b) = ?a @ [CHR 0x0A] @ ?b"
    using assms(1) by simp
  then show "splitLines trim (a @ [CHR 0x0A] @ b)
       = filter_Boolean (split_on (CHR 0x0A) ?a) @ filter_Boolean (split_on (CHR 0x0A) ?b)"
    by (simp add: splitLines_def split_on_append filter_Boolean_def)
qed

text \<open>
  Claim C6. A line of a line-delimited transcript on which \<open>JSON.parse\<close> throws, or
  whose \<open>type\<close> is neither \<open>user\<close> nor \<open>assistant\<close>, is skipped: the events
  retained, and the whole outcome of the parse, are those of the transcript without that
  line, wherever the line stands. For a line embedded between two others this is stated
  on the text of the transcript itself, \<open>trim\<close> being the removal of the characters of
  some class \<open>ws\<close> from both ends.
\<close>

theorem malformed_line_is_skipped:
  assumes "JSON_parse bad = None \<or>
           (\<exists>parsed. JSON_parse bad = Some parsed \<and> ev_type parsed \<noteq> ''user''
                      \<and> ev_type parsed \<noteq> ''assistant'')"
  shows "collectMessages JSON_parse (pre @ bad # post) = collectMessages JSON_parse (pre @ post)
       \<and> parseLines trim JSON_parse Date_parse (pre @ bad # post) sid
           = parseLines trim JSON_parse Date_parse (pre @ post) sid
       \<and> ((\<forall>s. trim s = stripBoth ws s) \<and> CHR 0x0A \<notin> set bad
            \<and> (\<exists>x\<in>set before. \<not> ws x) \<and> (\<exists>y\<in>set after. \<not> ws y) \<longrightarrow>
          parseSessionContent trim JSON_parse Date_parse
              (before @ [CHR 0x0A] @ bad @ [CHR 0x0A] @ after) sid
            = parseSessionContent trim JSON_parse Date_parse (before @ [CHR 0x0A] @ after) sid)"
proof (intro conjI impI)
  show "collectMessages JSON_parse (pre @ bad # post) = collectMessages JSON_parse (pre @ post)"
    using assms by (rule collectMessages_skip)
  show "parseLines trim JSON_parse Date_parse (pre @ bad # post) sid
           = parseLines trim JSON_parse Date_parse (pre @ post) sid"
    using assms by (rule parseLines_skip)
next
  assume h: "(\<forall>s. trim s = stripBoth ws s) \<and> CHR 0x0A \<notin> set bad
            \<and> (\<exists>x\<in>set before. \<not> ws x) \<and> (\<exists>y\<in>set after. \<not> ws y)"
  show "parseSessionContent trim JSON_parse Date_parse
              (before @ [CHR 0x0A] @ bad @ [CHR 0x0A] @ after) sid
            = parseSessionContent trim JSON_parse Date_parse (before @ [CHR 0x0A] @ after) sid"
  proof -
    let ?X = "filter_Boolean (split_on (CHR 0x0A) (dropWhile ws before))"
    let ?Y = "filter_Boolean (split_on (CHR 0x0A) (rev (dropWhile ws (rev after))))"
    have h1: "\<forall>s. trim s = stripBoth ws s" and h2: "CHR 0x0A \<notin> set bad"
      and h3: "\<exists>x\<in>set before. \<not> ws x" and h4: "\<exists>y\<in>set after. \<not> ws y"
      using h by simp_all
    have eq1: "splitLines trim (before @ [CHR 0x0A] @ bad @ [CHR 0x0A] @ after)
         = ?X @ filter_Boolean [bad] @ ?Y"
      using h1 h2 h3 h4 by (rule splitLines_embedded(1))
    have eq2: "splitLines trim (before @ [CHR 0x0A] @ after) = ?X @ ?Y"
      using h1 h2 h3 h4 by (rule splitLines_embedded(2))
    have "parseLines trim JSON_parse Date_parse (?X @ filter_Boolean [bad] @ ?Y) sid
        = parseLines trim JSON_parse Date_parse (?X @ ?Y) sid"
      using parseLines_skip [of JSON_parse bad trim Date_parse ?X ?Y sid] assms
      by (cases "bad = []") (simp_all add: filter_Boolean_def)
    then show ?thesis
      unfolding parseSessionContent_def eq1 eq2 .
  qed
qed

theorem malformed_line_is_skipped_witness:
  "example_JSON_parse line_malformed = None
   \<and> parseSessionContent ascii_trim example_JSON_parse example_Date_parse
         (line_user @ [CHR 0x0A] @ line_malformed @ [CHR 0x0A] @ line_user_padded) None
       = parseSessionContent ascii_trim example_JSON_parse example_Date_parse
           (line_user @ [CHR 0x0A] @ line_user_padded) None
   \<and> example_JSON_parse line_summary = Some event_summary
   \<and> ev_type event_summary = ''summary''
   \<and> parseSessionContent ascii_trim example_JSON_parse example_Date_parse
         (line_user @ [CHR 0x0A] @ line_summary @ [CHR 0x0A] @ line_user_padded) None
       = parseSessionContent ascii_trim example_JSON_parse example_Date_parse
           (line_user @ [CHR 0x0A] @ line_user_padded) None
   \<and> map_sum id (map_option userMessages)
         (parseSessionContent ascii_trim example_JSON_parse example_Date_parse
            (line_user @ [CHR 0x0A] @ line_malformed @ [CHR 0x0A] @ line_user_padded) None)
       = Inr (Some [''build septa tracker'', '' ship it ''])"
proof -
  have n: "example_JSON_parse line_malformed = None"
    by code_simp
  then have h: "example_JSON_parse line_malformed = None \<or>
           (\<exists>parsed. example_JSON_parse line_malformed = Some parsed
                      \<and> ev_type parsed \<noteq> ''user'' \<and> ev_type parsed \<noteq> ''assistant'')"
    by (rule disjI1)
  have w: "\<forall>s. ascii_trim s = stripBoth isWhitespace s"
    by (simp add: ascii_trim_def)
  have g0: "CHR 0x0A \<notin> set line_malformed \<and> (\<exists>x\<in>set line_user. \<not> isWhitespace x)
            \<and> (\<exists>y\<in>set line_user_padded. \<not> isWhitespace y)"
    by code_simp
  have g: "(\<forall>s. ascii_trim s = stripBoth isWhitespace s) \<and> CHR 0x0A \<notin> set line_malformed
            \<and> (\<exists>x\<in>set line_user. \<not> isWhitespace x)
            \<and> (\<exists>y\<in>set line_user_padded. \<not> isWhitespace y)"
    using w g0 by (rule conjI)
  note t = malformed_line_is_skipped
      [of example_JSON_parse line_malformed "[]" "[]" ascii_trim example_Date_parse None
          isWhitespace line_user line_user_padded]
  have e: "parseSessionContent ascii_trim example_JSON_parse example_Date_parse
         (line_user @ [CHR 0x0A] @ line_malformed @ [CHR 0x0A] @ line_user_padded) None
       = parseSessionContent ascii_trim example_JSON_parse example_Date_parse
           (line_user @ [CHR 0x0A] @ line_user_padded) None"
    by (rule t [OF h, THEN conjunct2, THEN conjunct2, THEN mp, OF g])
  have p: "example_JSON_parse line_summary = Some event_summary"
    by code_simp
  have t1: "ev_type event_summary = ''summary''"
    by code_simp
  have t2: "ev_type event_summary \<noteq> ''user'' \<and> ev_type event_summary \<noteq> ''assistant''"
    by code_simp
  have h': "example_JSON_parse line_summary = None \<or>
           (\<exists>parsed. example_JSON_parse line_summary = Some parsed
                      \<and> ev_type parsed \<noteq> ''user'' \<and> ev_type parsed \<noteq> ''assistant'')"
    using p t2 by blast
  have g0': "CHR 0x0A \<notin> set line_summary \<and> (\<exists>x\<in>set line_user. \<not> isWhitespace x)
            \<and> (\<exists>y\<in>set line_user_padded. \<not> isWhitespace y)"
    by code_simp
  have g': "(\<forall>s. ascii_trim s = stripBoth isWhitespace s) \<and> CHR 0x0A \<notin> set line_summary
            \<and> (\<exists>x\<in>set line_user. \<not> isWhitespace x)
            \<and> (\<exists>y\<in>set line_user_padded. \<not> isWhitespace y)"
    using w g0' by (rule conjI)
  note t' = malformed_line_is_skipped
      [of example_JSON_parse line_summary "[]" "[]" ascii_trim example_Date_parse None
          isWhitespace line_user line_user_padded]
  have e': "parseSessionContent ascii_trim example_JSON_parse example_Date_parse
         (line_user @ [CHR 0x0A] @ line_summary @ [CHR 0x0A] @ line_user_padded) None
       = parseSessionContent ascii_trim example_JSON_parse example_Date_parse
           (line_user @ [CHR 0x0A] @ line_user_padded) None"
    by (rule t' [OF h', THEN conjunct2, THEN conjunct2, THEN mp, OF g'])
  have "map_sum id (map_option userMessages)
         (parseSessionContent ascii_trim example_JSON_parse example_Date_parse
            (line_user @ [CHR 0x0A] @ line_user_padded) None)
       = Inr (Some [''build septa tracker'', '' ship it ''])"
    by code_simp
  then have v: "map_sum id (map_option userMessages)
         (parseSessionContent ascii_trim example_JSON_parse example_Date_parse
            (line_user @ [CHR 0x0A] @ line_malformed @ [CHR 0x0A] @ line_user_padded) None)
       = Inr (Some [''build septa tracker'', '' ship it ''])"
    unfolding e .
  show ?thesis
    by (intro conjI n e p t1 e' v)
qed

subsection \<open>What the message loop leaves alone\<close>

lemma extractFromContentBlock_frame:
  "acc_userMessages (extractFromContentBlock b acc) = acc_userMessages acc"
  "acc_modelTokens (extractFromContentBlock b acc) = acc_modelTokens acc"
  "totalCounter c (extractFromContentBlock b acc) = totalCounter c acc"
  by (cases c; simp add: extractFromContentBlock_def Let_def split: option.splits)+

lemma extractBlockList_Inr:
  "extractBlockList blocks acc = Inr acc' \<Longrightarrow>
     acc_userMessages acc' = acc_userMessages acc
     \<and> acc_modelTokens acc' = acc_modelTokens acc
     \<and> totalCounter c acc' = totalCounter c acc"
  by (induction blocks acc rule: extractBlockList.induct)
     (simp_all add: extractFromContentBlock_frame)

lemma extractBlockList_error:
  "extractBlockList blocks acc = Inl TypeError \<longleftrightarrow> None \<in> set blocks"
  by (induction blocks acc rule: extractBlockList.induct) auto

lemma extractBlocks_Inr:
  "extractBlocks m acc = Inr acc' \<Longrightarrow>
     acc_userMessages acc' = acc_userMessages acc
     \<and> acc_modelTokens acc' = acc_modelTokens acc
     \<and> totalCounter c acc' = totalCounter c acc"
  using extractBlockList_Inr [of _ acc acc' c]
  by (auto simp: extractBlocks_def split: MessageContent.splits)

lemma trackModel_frame:
  "acc_userMessages (trackModel m acc) = acc_userMessages acc"
  "totalCounter c (trackModel m acc) = totalCounter c acc"
  by (cases c; simp add: trackModel_def Let_def)+

lemma accumulateUsage_userMessages:
  "acc_userMessages (accumulateUsage m acc) = acc_userMessages acc"
  by (simp add: accumulateUsage_def Let_def split: option.splits)

lemma processMessage_error:
  "processMessage trim msg acc = Inl TypeError \<longleftrightarrow> \<not> readable msg"
  by (auto simp: processMessage_def readable_def extractBlocks_def extractBlockList_error
      split: option.splits MessageContent.splits)

lemma processMessage_userMessages:
  assumes "processMessage trim msg acc = Inr acc'"
  shows "acc_userMessages acc' = acc_userMessages acc @ userText trim msg"
proof -
  consider (user) "ev_type msg = ''user''"
    | (assistant) "ev_type msg \<noteq> ''user''" "ev_type msg = ''assistant''"
    | (other) "ev_type msg \<noteq> ''user''" "ev_type msg \<noteq> ''assistant''" by blast
  then show ?thesis
  proof cases
    case user
    then show ?thesis
      using assms
      by (auto simp: processMessage_def userText_def split: option.splits MessageContent.splits
          if_splits)
  next
    case assistant
    then obtain m where m: "ev_message msg = Some m"
      and e: "extractBlocks m (accumulateUsage m (trackModel m acc)) = Inr acc'"
      using assms by (auto simp: processMessage_def split: option.splits)
    show ?thesis
      using extractBlocks_Inr [OF e, of CInput] assistant
      by (simp add: userText_def accumulateUsage_userMessages trackModel_frame)
  next
    case other
    then show ?thesis
      using assms by (simp add: processMessage_def userText_def)
  qed
qed

lemma processMessages_userMessages:
  "processMessages trim msgs acc = Inr acc' \<Longrightarrow>
     acc_userMessages acc' = acc_userMessages acc @ concat (map (userText trim) msgs)"
proof (induction msgs arbitrary: acc)
  case Nil
  then show ?case by simp
next
  case (Cons msg msgs)
  then obtain acc1 where 1: "processMessage trim msg acc = Inr acc1"
    and 2: "processMessages trim msgs acc1 = Inr acc'"
    by (auto split: sum.splits)
  show ?case
    using Cons.IH [OF 2] processMessage_userMessages [OF 1] by simp
qed

lemma processMessages_error:
  "processMessages trim msgs acc = Inl TypeError \<longleftrightarrow> (\<exists>msg\<in>set msgs. \<not> readable msg)"
proof (induction msgs arbitrary: acc)
  case Nil
  then show ?case by simp
next
  case (Cons msg msgs)
  show ?case
  proof (cases "processMessage trim msg acc")
    case (Inl e)
    then have "\<not> readable msg"
      using processMessage_error [of trim msg acc] by (cases e) simp
    with Inl show ?thesis by (cases e) simp
  next
    case (Inr acc1)
    then have "readable msg"
      using processMessage_error [of trim msg acc] by auto
    with Inr Cons.IH [of acc1] show ?thesis by simp
  qed
qed

lemma parseLines_Some:
  assumes "parseLines trim P D lines sid = Inr (Some s)"
  shows "\<exists>acc. processMessages trim (collectMessages P lines) emptyAccumulator = Inr acc
           \<and> collectMessages P lines \<noteq> []
           \<and> userMessages s = acc_userMessages acc
           \<and> inputTokens s = acc_inputTokens acc
           \<and> outputTokens s = acc_outputTokens acc
           \<and> cacheCreationTokens s = acc_cacheCreationTokens acc
           \<and> cacheReadTokens s = acc_cacheReadTokens acc
           \<and> modelTokens s = acc_modelTokens acc
           \<and> filesFromToolCalls s = acc_filesFromToolCalls acc"
  using assms
  by (auto simp: parseLines_def Let_def split: if_splits list.splits sum.splits)

lemma parseLines_None_iff:
  "parseLines trim P D lines sid = Inr None \<longleftrightarrow> collectMessages P lines = []"
  by (cases lines) (auto simp: parseLines_def Let_def split: list.splits sum.splits)


subsection \<open>User messages\<close>

text \<open>
  Claim C10. In the line-delimited extractor \<open>userMessages\<close> is, in order, what the
  retained events contribute: an event of type \<open>user\<close> whose content is a string
  with a non-empty trimmed form contributes that string as it is, untrimmed; a user
  event with array content or other non-string content, or with a string that \<open>trim\<close>
  empties, contributes nothing, and so does every other event. When the extractor
  returns a session, every retained event has a \<open>message\<close>.
\<close>

theorem user_message_needs_nonblank_string:
  assumes "parseSessionContent trim JSON_parse Date_parse content sid = Inr (Some s)"
  shows "userMessages s =
     concat (map (\<lambda>msg. if ev_type msg = ''user'' then
                           (case msg_content (the (ev_message msg)) of
                              StringContent c \<Rightarrow> if trim c \<noteq> [] then [c] else []
                            | ArrayContent blocks \<Rightarrow> []
                            | OtherContent \<Rightarrow> [])
                         else [])
        (collectMessages JSON_parse (splitLines trim content)))
     \<and> (\<forall>msg\<in>set (collectMessages JSON_parse (splitLines trim content)).
           ev_message msg \<noteq> None)"
proof -
  let ?msgs = "collectMessages JSON_parse (splitLines trim content)"
  let ?f = "\<lambda>msg. if ev_type msg = ''user'' then
                           (case msg_content (the (ev_message msg)) of
                              StringContent c \<Rightarrow> if trim c \<noteq> [] then [c] else []
                            | ArrayContent blocks \<Rightarrow> []
                            | OtherContent \<Rightarrow> [])
                         else []"
  obtain acc where p: "processMessages trim ?msgs emptyAccumulator = Inr acc"
    and u: "userMessages s = acc_userMessages acc"
    using parseLines_Some [of trim JSON_parse Date_parse "splitLines trim content" sid s] assms
    by (auto simp: parseSessionContent_def)
  have r: "\<forall>msg\<in>set ?msgs. readable msg"
    using processMessages_error [of trim ?msgs emptyAccumulator] p by auto
  have t: "\<forall>msg\<in>set ?msgs. ev_type msg = ''user'' \<or> ev_type msg = ''assistant''"
  proof -
    have "\<forall>msg\<in>set (collectMessages JSON_parse ls).
        ev_type msg = ''user'' \<or> ev_type msg = ''assistant''" for ls
      by (induction ls) (auto split: option.splits)
    then show ?thesis .
  qed
  have "ev_message msg \<noteq> None" if "msg \<in> set ?msgs" for msg
  proof -
    have "readable msg" and "ev_type msg = ''user'' \<or> ev_type msg = ''assistant''"
      using r t that by simp_all
    then show ?thesis
      by (auto simp: readable_def split: if_splits option.splits)
  qed
  then have m: "\<forall>msg\<in>set ?msgs. ev_message msg \<noteq> None" by simp
  have e: "map (userText trim) ?msgs = map ?f ?msgs"
    using m by (intro map_cong refl) (auto simp: userText_def split: MessageContent.splits)
  have "acc_userMessages acc = concat (map (userText trim) ?msgs)"
    using processMessages_userMessages [OF p] by (simp add: emptyAccumulator_def)
  then have "userMessages s = concat (map ?f ?msgs)"
    by (simp only: u e)
  with m show ?thesis by simp
qed

theorem user_message_needs_nonblank_string_witness:
  "map_sum id (map_option messageCount)
        (parseSessionContent ascii_trim example_JSON_parse example_Date_parse
          (line_user_blocks @ [CHR 0x0A] @ line_user_blank @ [CHR 0x0A] @ line_user_padded) None)
      = Inr (Some 3)
   \<and> map_sum id (map_option userMessages)
        (parseSessionContent ascii_trim example_JSON_parse example_Date_parse
          (line_user_blocks @ [CHR 0x0A] @ line_user_blank @ [CHR 0x0A] @ line_user_padded) None)
      = Inr (Some ['' ship it ''])"
proof -
  let ?content = "line_user_blocks @ [CHR 0x0A] @ line_user_blank @ [CHR 0x0A] @ line_user_padded"
  let ?r = "parseSessionContent ascii_trim example_JSON_parse example_Date_parse ?content None"
  have n: "map_sum id (map_option messageCount) ?r = Inr (Some 3)"
    by code_simp
  then obtain s where s: "?r = Inr (Some s)"
    by (cases ?r) auto
  have c: "collectMessages example_JSON_parse (splitLines ascii_trim ?content)
      = [event_user_blocks, event_user_blank, event_user_padded]"
    by code_simp
  have v: "concat (map (\<lambda>msg. if ev_type msg = ''user'' then
                           (case msg_content (the (ev_message msg)) of
                              StringContent c \<Rightarrow> if ascii_trim c \<noteq> [] then [c] else []
                            | ArrayContent blocks \<Rightarrow> []
                            | OtherContent \<Rightarrow> [])
                         else [])
        [event_user_blocks, event_user_blank, event_user_padded]) = ['' ship it '']"
    by code_simp
  have "userMessages s = ['' ship it '']"
    using user_message_needs_nonblank_string [OF s, THEN conjunct1] unfolding c v .
  with s n show ?thesis
    by simp
qed

subsection \<open>Token totals\<close>

lemma js_add_exact: "0 \<le> a \<Longrightarrow> 0 \<le> b \<Longrightarrow> a + b \<le> 2 ^ 53 \<Longrightarrow> js_add a b = a + b"
  by (simp add: js_add_def round_to_double_exact)

lemma addUsage_counter:
  "bucketCounter c (addUsage u b) = js_add (bucketCounter c b) (usageCounter c u)"
  by (cases c) (simp_all add: addUsage_def)

lemma sumTokens_nonneg: "\<forall>e\<in>set mt. 0 \<le> f (snd e) \<Longrightarrow> 0 \<le> sumTokens f mt"
  by (induction mt) (auto simp: sumTokens_def)

lemma updateBucket_counter:
  assumes "map_of mt name \<noteq> None"
    and "\<forall>e\<in>set mt. 0 \<le> bucketCounter c (snd e)"
    and "0 \<le> usageCounter c u"
    and "sumTokens (bucketCounter c) mt + usageCounter c u \<le> 2 ^ 53"
  shows "sumTokens (bucketCounter c) (updateBucket name u mt)
           = sumTokens (bucketCounter c) mt + usageCounter c u
       \<and> (\<forall>e\<in>set (updateBucket name u mt). 0 \<le> bucketCounter c (snd e))"
  using assms
proof (induction mt)
  case Nil
  then show ?case by simp
next
  case (Cons e mt)
  obtain k b where e: "e = (k, b)" by (cases e)
  have nb: "0 \<le> bucketCounter c b" and nr: "\<forall>e\<in>set mt. 0 \<le> bucketCounter c (snd e)"
    using Cons.prems(2) e by simp_all
  have sr: "0 \<le> sumTokens (bucketCounter c) mt"
    using nr by (rule sumTokens_nonneg)
  have bound: "bucketCounter c b + sumTokens (bucketCounter c) mt + usageCounter c u \<le> 2 ^ 53"
    using Cons.prems(4) e by (simp add: sumTokens_def)
  show ?case
  proof (cases "k = name")
    case True
    have "bucketCounter c b + usageCounter c u \<le> 2 ^ 53"
      using bound sr by linarith
    then have "bucketCounter c (addUsage u b) = bucketCounter c b + usageCounter c u"
      unfolding addUsage_counter using nb Cons.prems(3) by (intro js_add_exact)
    then show ?thesis
      using True e nb nr Cons.prems(3) by (simp add: sumTokens_def)
  next
    case False
    have "map_of mt name \<noteq> None"
      using Cons.prems(1) e False by simp
    moreover have "sumTokens (bucketCounter c) mt + usageCounter c u \<le> 2 ^ 53"
      using bound nb by linarith
    ultimately have "sumTokens (bucketCounter c) (updateBucket name u mt)
           = sumTokens (bucketCounter c) mt + usageCounter c u
       \<and> (\<forall>e\<in>set (updateBucket name u mt). 0 \<le> bucketCounter c (snd e))"
      using Cons.IH nr Cons.prems(3) by simp
    then show ?thesis
      using False e nb by (simp add: sumTokens_def)
  qed
qed

lemma trackModel_sum:
  "sumTokens (bucketCounter c) (acc_modelTokens (trackModel m acc))
     = sumTokens (bucketCounter c) (acc_modelTokens acc)"
  by (cases c) (simp_all add: trackModel_def Let_def sumTokens_def zeroTokens_def)

lemma trackModel_nonneg:
  "\<forall>e\<in>set (acc_modelTokens acc). 0 \<le> bucketCounter c (snd e) \<Longrightarrow>
     \<forall>e\<in>set (acc_modelTokens (trackModel m acc)). 0 \<le> bucketCounter c (snd e)"
  by (cases c) (simp_all add: trackModel_def Let_def zeroTokens_def)

lemma trackModel_bucket:
  assumes "truthy (msg_model m)" and "the (msg_model m) \<notin> set Object_prototype_properties"
  shows "map_of (acc_modelTokens (trackModel m acc)) (the (msg_model m)) \<noteq> None"
  using assms by (auto simp: trackModel_def Let_def bucketTruthy_def map_add_def)

lemma accumulateUsage_None: "msg_usage m = None \<Longrightarrow> accumulateUsage m acc = acc"
  by (simp add: accumulateUsage_def)

lemma accumulateUsage_Some:
  assumes "msg_usage m = Some u" and "truthy (msg_model m)"
    and "map_of (acc_modelTokens acc) (the (msg_model m)) \<noteq> None"
  shows "totalCounter c (accumulateUsage m acc) = js_add (totalCounter c acc) (usageCounter c u)"
    and "acc_modelTokens (accumulateUsage m acc)
           = updateBucket (the (msg_model m)) u (acc_modelTokens acc)"
  using assms
  by (cases c; simp add: accumulateUsage_def Let_def bucketTruthy_def)+

lemma accumulateUsage_counter:
  assumes "totalCounter c acc = sumTokens (bucketCounter c) (acc_modelTokens acc)"
    and "\<forall>e\<in>set (acc_modelTokens acc). 0 \<le> bucketCounter c (snd e)"
    and "msg_usage m = Some u" and "truthy (msg_model m)"
    and "map_of (acc_modelTokens acc) (the (msg_model m)) \<noteq> None"
    and "0 \<le> usageCounter c u" and "totalCounter c acc + usageCounter c u \<le> 2 ^ 53"
  shows "totalCounter c (accumulateUsage m acc) = totalCounter c acc + usageCounter c u
       \<and> totalCounter c (accumulateUsage m acc)
           = sumTokens (bucketCounter c) (acc_modelTokens (accumulateUsage m acc))
       \<and> (\<forall>e\<in>set (acc_modelTokens (accumulateUsage m acc)). 0 \<le> bucketCounter c (snd e))"
proof -
  have n: "0 \<le> totalCounter c acc"
    unfolding assms(1) using assms(2) by (rule sumTokens_nonneg)
  have t: "totalCounter c (accumulateUsage m acc) = totalCounter c acc + usageCounter c u"
    unfolding accumulateUsage_Some(1) [OF assms(3,4,5)]
    using n assms(6,7) by (rule js_add_exact)
  have b: "sumTokens (bucketCounter c) (acc_modelTokens acc) + usageCounter c u \<le> 2 ^ 53"
    using assms(1,7) by simp
  note ub = updateBucket_counter [OF assms(5) assms(2) assms(6) b]
  show ?thesis
    unfolding accumulateUsage_Some(2) [OF assms(3,4,5)]
    using t ub assms(1) by (simp add: accumulateUsage_Some(2) [OF assms(3,4,5)])
qed

lemma counterSum_simps:
  "counterSum c [] = 0"
  "counterSum c (u # us) = usageCounter c u + counterSum c us"
  "counterSum c (us @ vs) = counterSum c us + counterSum c vs"
  by (simp_all add: counterSum_def)

lemma nonNegative_counter: "nonNegative u \<Longrightarrow> 0 \<le> usageCounter c u"
  by (cases c) (simp_all add: nonNegative_def)

lemma counterSum_nonneg: "\<forall>u\<in>set us. nonNegative u \<Longrightarrow> 0 \<le> counterSum c us"
  by (induction us) (simp_all add: counterSum_simps nonNegative_counter)

lemma userMessages_update_counter:
  "totalCounter c (acc\<lparr>acc_userMessages := ms\<rparr>) = totalCounter c acc"
  by (cases c) simp_all

lemma processMessage_counter:
  assumes "processMessage trim msg acc = Inr acc'"
    and "usageHasBucket msg" and "\<forall>u\<in>set (usageOf msg). nonNegative u"
    and "totalCounter c acc = sumTokens (bucketCounter c) (acc_modelTokens acc)"
    and "\<forall>e\<in>set (acc_modelTokens acc). 0 \<le> bucketCounter c (snd e)"
    and "totalCounter c acc + counterSum c (usageOf msg) \<le> 2 ^ 53"
  shows "totalCounter c acc' = totalCounter c acc + counterSum c (usageOf msg)
       \<and> totalCounter c acc' = sumTokens (bucketCounter c) (acc_modelTokens acc')
       \<and> (\<forall>e\<in>set (acc_modelTokens acc'). 0 \<le> bucketCounter c (snd e))"
proof -
  consider (user) "ev_type msg = ''user''"
    | (assistant) "ev_type msg \<noteq> ''user''" "ev_type msg = ''assistant''"
    | (other) "ev_type msg \<noteq> ''user''" "ev_type msg \<noteq> ''assistant''" by blast
  then show ?thesis
  proof cases
    case user
    then have "acc' = acc \<or> (\<exists>ms. acc' = acc\<lparr>acc_userMessages := ms\<rparr>)"
      using assms(1)
      by (auto simp: processMessage_def split: option.splits MessageContent.splits if_splits)
    moreover have "usageOf msg = []"
      using user by (simp add: usageOf_def)
    ultimately show ?thesis
      using assms(4,5) by (auto simp: counterSum_simps userMessages_update_counter)
  next
    case assistant
    then obtain m where m: "ev_message msg = Some m"
      and e: "extractBlocks m (accumulateUsage m (trackModel m acc)) = Inr acc'"
      using assms(1) by (auto simp: processMessage_def split: option.splits)
    let ?acc1 = "trackModel m acc"
    note f = extractBlocks_Inr [OF e, of c]
    have i1: "totalCounter c ?acc1 = sumTokens (bucketCounter c) (acc_modelTokens ?acc1)"
      using assms(4) by (simp add: trackModel_frame trackModel_sum)
    have i2: "\<forall>e\<in>set (acc_modelTokens ?acc1). 0 \<le> bucketCounter c (snd e)"
      using assms(5) by (rule trackModel_nonneg)
    show ?thesis
    proof (cases "msg_usage m")
      case None
      then have "usageOf msg = []"
        using m by (simp add: usageOf_def)
      then show ?thesis
        using f i1 i2 None by (simp add: accumulateUsage_None counterSum_simps trackModel_frame)
    next
      case (Some u)
      then have uo: "usageOf msg = [u]"
        using m assistant by (simp add: usageOf_def)
      have t: "truthy (msg_model m)"
        and p: "the (msg_model m) \<notin> set Object_prototype_properties"
        using assms(2) m assistant Some by (simp_all add: usageHasBucket_def)
      have b: "map_of (acc_modelTokens ?acc1) (the (msg_model m)) \<noteq> None"
        using t p by (rule trackModel_bucket)
      have n: "0 \<le> usageCounter c u"
        using assms(3) uo by (simp add: nonNegative_counter)
      have r: "totalCounter c ?acc1 + usageCounter c u \<le> 2 ^ 53"
        using assms(6) uo by (simp add: counterSum_simps trackModel_frame)
      note a = accumulateUsage_counter [OF i1 i2 Some t b n r]
      show ?thesis
        using f a uo by (simp add: counterSum_simps trackModel_frame)
    qed
  next
    case other
    then have "acc' = acc" and "usageOf msg = []"
      using assms(1) by (simp_all add: processMessage_def usageOf_def)
    then show ?thesis
      using assms(4,5) by (simp add: counterSum_simps)
  qed
qed

lemma usagesOf_Cons: "usagesOf (msg # msgs) = usageOf msg @ usagesOf msgs"
  by (simp add: usagesOf_def)

lemma processMessages_counter:
  assumes "processMessages trim msgs acc = Inr acc'"
    and "\<forall>msg\<in>set msgs. usageHasBucket msg" and "\<forall>u\<in>set (usagesOf msgs). nonNegative u"
    and "totalCounter c acc = sumTokens (bucketCounter c) (acc_modelTokens acc)"
    and "\<forall>e\<in>set (acc_modelTokens acc). 0 \<le> bucketCounter c (snd e)"
    and "totalCounter c acc + counterSum c (usagesOf msgs) \<le> 2 ^ 53"
  shows "totalCounter c acc' = totalCounter c acc + counterSum c (usagesOf msgs)
       \<and> totalCounter c acc' = sumTokens (bucketCounter c) (acc_modelTokens acc')"
  using assms
proof (induction msgs arbitrary: acc)
  case Nil
  then show ?case by (simp add: usagesOf_def counterSum_simps)
next
  case (Cons msg msgs)
  obtain acc1 where 1: "processMessage trim msg acc = Inr acc1"
    and 2: "processMessages trim msgs acc1 = Inr acc'"
    using Cons.prems(1) by (auto split: sum.splits)
  have nn: "\<forall>u\<in>set (usageOf msg). nonNegative u" "\<forall>u\<in>set (usagesOf msgs). nonNegative u"
    using Cons.prems(3) by (simp_all add: usagesOf_Cons)
  have rest: "0 \<le> counterSum c (usagesOf msgs)"
    using nn(2) by (rule counterSum_nonneg)
  have b: "totalCounter c acc + counterSum c (usageOf msg) + counterSum c (usagesOf msgs)
      \<le> 2 ^ 53"
    using Cons.prems(6) by (simp add: usagesOf_Cons counterSum_simps)
  have b1: "totalCounter c acc + counterSum c (usageOf msg) \<le> 2 ^ 53"
    using b rest by linarith
  have hb: "usageHasBucket msg" "\<forall>msg\<in>set msgs. usageHasBucket msg"
    using Cons.prems(2) by simp_all
  note s = processMessage_counter [OF 1 hb(1) nn(1) Cons.prems(4,5) b1]
  have b2: "totalCounter c acc1 + counterSum c (usagesOf msgs) \<le> 2 ^ 53"
    using b s by simp
  have "totalCounter c acc' = totalCounter c acc1 + counterSum c (usagesOf msgs)
       \<and> totalCounter c acc' = sumTokens (bucketCounter c) (acc_modelTokens acc')"
    using s by (intro Cons.IH [OF 2 hb(2) nn(2) _ _ b2]) simp_all
  then show ?case
    using s by (simp add: usagesOf_Cons counterSum_simps)
qed

lemma bucketCounter_fields:
  "bucketCounter CInput = tok_input" "bucketCounter COutput = tok_output"
  "bucketCounter CCacheCreation = tok_cacheCreation" "bucketCounter CCacheRead = tok_cacheRead"
  by (rule ext, simp)+

text \<open>
  Claim C2, as the parser has it. The counters of a usage are integers. The four totals
  of a session equal the element-wise sums over \<open>modelTokens\<close> for every session of
  the structured-export extractor, and for a session of the line-delimited extractor
  when every retained assistant event that carries usage also names a non-empty model
  that is not the name of an inherited object member, no counter is negative, and no
  counter adds up to more than \<open>2^53\<close> over the retained events; each total is then
  the exact sum of its counter over these events. Usage without such a model is added
  to the totals only, and beyond \<open>2^53\<close> the additions round.
\<close>

theorem token_totals_sum_when_models_declared:
  "(parseSessionContent trim JSON_parse Date_parse content sid = Inr (Some s)
    \<and> (\<forall>msg\<in>set (collectMessages JSON_parse (splitLines trim content)). usageHasBucket msg)
    \<and> (\<forall>u\<in>set (usagesOf (collectMessages JSON_parse (splitLines trim content))).
          nonNegative u)
    \<and> withinRange (usagesOf (collectMessages JSON_parse (splitLines trim content)))
    \<longrightarrow> inputTokens s = sumTokens tok_input (modelTokens s)
        \<and> outputTokens s = sumTokens tok_output (modelTokens s)
        \<and> cacheCreationTokens s = sumTokens tok_cacheCreation (modelTokens s)
        \<and> cacheReadTokens s = sumTokens tok_cacheRead (modelTokens s)
        \<and> inputTokens s
            = counterSum CInput (usagesOf (collectMessages JSON_parse (splitLines trim content)))
        \<and> outputTokens s
            = counterSum COutput (usagesOf (collectMessages JSON_parse (splitLines trim content)))
        \<and> cacheCreationTokens s
            = counterSum CCacheCreation
                (usagesOf (collectMessages JSON_parse (splitLines trim content)))
        \<and> cacheReadTokens s
            = counterSum CCacheRead
                (usagesOf (collectMessages JSON_parse (splitLines trim content))))
   \<and> inputTokens (parseOpenCodeSession export) = sumTokens tok_input (modelTokens (parseOpenCodeSession export))
   \<and> outputTokens (parseOpenCodeSession export) = sumTokens tok_output (modelTokens (parseOpenCodeSession export))
   \<and> cacheCreationTokens (parseOpenCodeSession export)
       = sumTokens tok_cacheCreation (modelTokens (parseOpenCodeSession export))
   \<and> cacheReadTokens (parseOpenCodeSession export)
       = sumTokens tok_cacheRead (modelTokens (parseOpenCodeSession export))"
proof -
  let ?msgs = "collectMessages JSON_parse (splitLines trim content)"
  have line: "inputTokens s = sumTokens tok_input (modelTokens s)
        \<and> outputTokens s = sumTokens tok_output (modelTokens s)
        \<and> cacheCreationTokens s = sumTokens tok_cacheCreation (modelTokens s)
        \<and> cacheReadTokens s = sumTokens tok_cacheRead (modelTokens s)
        \<and> inputTokens s = counterSum CInput (usagesOf ?msgs)
        \<and> outputTokens s = counterSum COutput (usagesOf ?msgs)
        \<and> cacheCreationTokens s = counterSum CCacheCreation (usagesOf ?msgs)
        \<and> cacheReadTokens s = counterSum CCacheRead (usagesOf ?msgs)"
    if h: "parseSessionContent trim JSON_parse Date_parse content sid = Inr (Some s)
      \<and> (\<forall>msg\<in>set ?msgs. usageHasBucket msg)
      \<and> (\<forall>u\<in>set (usagesOf ?msgs). nonNegative u)
      \<and> withinRange (usagesOf ?msgs)"
  proof -
    have h1: "parseLines trim JSON_parse Date_parse (splitLines trim content) sid = Inr (Some s)"
      and h2: "\<forall>msg\<in>set ?msgs. usageHasBucket msg"
      and h3: "\<forall>u\<in>set (usagesOf ?msgs). nonNegative u"
      and h4: "withinRange (usagesOf ?msgs)"
      using h by (simp_all add: parseSessionContent_def)
    obtain acc where p: "processMessages trim ?msgs emptyAccumulator = Inr acc"
      and f: "inputTokens s = acc_inputTokens acc" "outputTokens s = acc_outputTokens acc"
        "cacheCreationTokens s = acc_cacheCreationTokens acc"
        "cacheReadTokens s = acc_cacheReadTokens acc" "modelTokens s = acc_modelTokens acc"
      using parseLines_Some [OF h1] by auto
    have c: "totalCounter c acc = totalCounter c emptyAccumulator + counterSum c (usagesOf ?msgs)
         \<and> totalCounter c acc = sumTokens (bucketCounter c) (acc_modelTokens acc)" for c
    proof -
      have z: "totalCounter c emptyAccumulator = 0"
        by (cases c) (simp_all add: emptyAccumulator_def)
      have b: "totalCounter c emptyAccumulator + counterSum c (usagesOf ?msgs) \<le> 2 ^ 53"
        unfolding z using h4 by (cases c) (simp_all add: withinRange_def)
      have i1: "totalCounter c emptyAccumulator
          = sumTokens (bucketCounter c) (acc_modelTokens emptyAccumulator)"
        unfolding z by (simp add: emptyAccumulator_def sumTokens_def)
      have i2: "\<forall>e\<in>set (acc_modelTokens emptyAccumulator). 0 \<le> bucketCounter c (snd e)"
        by (simp add: emptyAccumulator_def)
      show ?thesis
        using p h2 h3 i1 i2 b by (rule processMessages_counter)
    qed
    have z: "totalCounter c emptyAccumulator = 0" for c
      by (cases c) (simp_all add: emptyAccumulator_def)
    show ?thesis
      using c [of CInput] c [of COutput] c [of CCacheCreation] c [of CCacheRead] f
      by (simp add: z bucketCounter_fields)
  qed
  have export: "inputTokens (parseOpenCodeSession export) = sumTokens tok_input (modelTokens (parseOpenCodeSession export))
   \<and> outputTokens (parseOpenCodeSession export) = sumTokens tok_output (modelTokens (parseOpenCodeSession export))
   \<and> cacheCreationTokens (parseOpenCodeSession export)
       = sumTokens tok_cacheCreation (modelTokens (parseOpenCodeSession export))
   \<and> cacheReadTokens (parseOpenCodeSession export)
       = sumTokens tok_cacheRead (modelTokens (parseOpenCodeSession export))"
    by (simp add: parseOpenCodeSession_def Let_def sumTokens_def)
  show ?thesis
    using line export by (intro conjI impI) simp_all
qed

theorem token_totals_sum_when_models_declared_witness:
  "map_sum id (map_option inputTokens)
     (parseSessionContent ascii_trim example_JSON_parse example_Date_parse
        (line_user @ [CHR 0x0A] @ line_assistant) None) = Inr (Some 5)
   \<and> map_sum id (map_option (\<lambda>s. sumTokens tok_input (modelTokens s)))
     (parseSessionContent ascii_trim example_JSON_parse example_Date_parse
        (line_user @ [CHR 0x0A] @ line_assistant) None) = Inr (Some 5)
   \<and> inputTokens (parseOpenCodeSession example_export)
      = sumTokens tok_input (modelTokens (parseOpenCodeSession example_export))"
proof -
  let ?content = "line_user @ [CHR 0x0A] @ line_assistant"
  let ?r = "parseSessionContent ascii_trim example_JSON_parse example_Date_parse ?content None"
  have i: "map_sum id (map_option inputTokens) ?r = Inr (Some 5)"
    by code_simp
  then obtain s where s: "?r = Inr (Some s)"
    by (cases ?r) auto
  have c: "collectMessages example_JSON_parse (splitLines ascii_trim ?content)
      = [event_user, event_assistant]"
    by code_simp
  have m: "\<forall>msg\<in>set [event_user, event_assistant]. usageHasBucket msg"
    by code_simp
  have n: "\<forall>u\<in>set (usagesOf [event_user, event_assistant]). nonNegative u"
    by code_simp
  have w: "withinRange (usagesOf [event_user, event_assistant])"
    by code_simp
  have h: "?r = Inr (Some s)
    \<and> (\<forall>msg\<in>set (collectMessages example_JSON_parse (splitLines ascii_trim ?content)).
          usageHasBucket msg)
    \<and> (\<forall>u\<in>set (usagesOf (collectMessages example_JSON_parse (splitLines ascii_trim ?content))).
          nonNegative u)
    \<and> withinRange (usagesOf (collectMessages example_JSON_parse (splitLines ascii_trim ?content)))"
    unfolding c by (intro conjI s m n w)
  note t = token_totals_sum_when_models_declared
      [of ascii_trim example_JSON_parse example_Date_parse ?content None s example_export]
  have t1: "inputTokens s = sumTokens tok_input (modelTokens s)"
    using t [THEN conjunct1, THEN mp, OF h] by (rule conjunct1)
  have t2: "inputTokens (parseOpenCodeSession example_export)
      = sumTokens tok_input (modelTokens (parseOpenCodeSession example_export))"
    using t [THEN conjunct2] by (rule conjunct1)
  have j: "map_sum id (map_option (\<lambda>s. sumTokens tok_input (modelTokens s))) ?r = Inr (Some 5)"
    using i s t1 by simp
  show ?thesis
    by (intro conjI i j t2)
qed

theorem token_totals_counterexample:
  "map_sum id (map_option inputTokens)
     (parseSessionContent ascii_trim example_JSON_parse example_Date_parse
        line_assistant_no_model None)
     = Inr (Some 5)
   \<and> map_sum id (map_option (\<lambda>s. sumTokens tok_input (modelTokens s)))
     (parseSessionContent ascii_trim example_JSON_parse example_Date_parse
        line_assistant_no_model None)
     = Inr (Some 0)
   \<and> map_sum id (map_option inputTokens)
     (parseSessionContent ascii_trim example_JSON_parse example_Date_parse
        (line_assistant_big @ [CHR 0x0A] @ line_assistant_one @ [CHR 0x0A] @ line_assistant_one)
        None)
     = Inr (Some 9007199254740992)
   \<and> map_sum id (map_option (\<lambda>s. sumTokens tok_input (modelTokens s)))
     (parseSessionContent ascii_trim example_JSON_parse example_Date_parse
        (line_assistant_big @ [CHR 0x0A] @ line_assistant_one @ [CHR 0x0A] @ line_assistant_one)
        None)
     = Inr (Some 9007199254740994)"
  by code_simp

subsection \<open>Format detection\<close>




subsection \<open>Files touched\<close>

lemma set_add_set: "set (set_add x xs) = insert x (set xs)"
  by (auto simp: set_add_def)

lemma extractFilePaths_looksLikePath:
  "\<forall>f\<in>set files. looksLikePath f \<Longrightarrow> \<forall>f\<in>set (extractFilePaths inp files). looksLikePath f"
proof (induction inp files rule: extractFilePaths.induct)
  case (1 files)
  then show ?case by simp
next
  case (2 key v rest files)
  define files1 where "files1 = (case v of
                      JStr s \<Rightarrow> if key \<in> set pathKeys \<and> looksLikePath s
                                then set_add s files else files
                    | _ \<Rightarrow> files)"
  define files2 where "files2 = (case v of
                      JObj inner \<Rightarrow> extractFilePaths inner files1
                    | _ \<Rightarrow> files1)"
  have f1: "\<forall>f\<in>set files1. looksLikePath f"
    using "2.prems" by (auto simp: files1_def set_add_set split: json.splits)
  have f2: "\<forall>f\<in>set files2. looksLikePath f"
  proof (cases v)
    case (JObj inner)
    then show ?thesis
      using "2.IH"(1) [OF files1_def JObj f1] by (simp add: files2_def)
  qed (use f1 in \<open>simp_all add: files2_def\<close>)
  have e: "extractFilePaths ((key, v) # rest) files = extractFilePaths rest files2"
    by (simp only: extractFilePaths.simps Let_def files1_def files2_def)
  show ?case
    unfolding e using f2 by (rule "2.IH"(2) [OF files1_def files2_def])
qed

lemma extractFromContentBlock_paths:
  assumes "filesArePaths acc"
  shows "filesArePaths (extractFromContentBlock b acc)"
proof (cases "block_input b")
  case None
  then show ?thesis
    using assms by (simp add: filesArePaths_def extractFromContentBlock_def Let_def)
next
  case (Some inp)
  have "\<forall>f\<in>set (extractFilePaths inp (acc_filesFromToolCalls acc)). looksLikePath f"
    using assms unfolding filesArePaths_def by (rule extractFilePaths_looksLikePath)
  then show ?thesis
    using assms Some by (simp add: filesArePaths_def extractFromContentBlock_def Let_def)
qed

lemma extractBlockList_paths:
  "filesArePaths acc \<Longrightarrow> extractBlockList blocks acc = Inr acc' \<Longrightarrow> filesArePaths acc'"
  by (induction blocks acc rule: extractBlockList.induct)
     (simp_all add: extractFromContentBlock_paths)

lemma extractBlocks_paths:
  "filesArePaths acc \<Longrightarrow> extractBlocks m acc = Inr acc' \<Longrightarrow> filesArePaths acc'"
  using extractBlockList_paths [of acc _ acc']
  by (auto simp: extractBlocks_def split: MessageContent.splits)

lemma processMessage_paths:
  assumes "filesArePaths acc" and "processMessage trim msg acc = Inr acc'"
  shows "filesArePaths acc'"
proof -
  have t: "acc_filesFromToolCalls (trackModel m acc) = acc_filesFromToolCalls acc" for m
    by (simp add: trackModel_def Let_def)
  have u: "acc_filesFromToolCalls (accumulateUsage m a) = acc_filesFromToolCalls a" for m a
    by (simp add: accumulateUsage_def Let_def split: option.splits)
  have a: "filesArePaths (accumulateUsage m (trackModel m acc))" for m
    using assms(1) by (simp add: filesArePaths_def t u)
  have b: "filesArePaths (acc\<lparr>acc_userMessages := ms\<rparr>)" for ms
    using assms(1) by (simp add: filesArePaths_def)
  show ?thesis
    using assms a b extractBlocks_paths [of "accumulateUsage m (trackModel m acc)" m acc' for m]
    by (auto simp: processMessage_def split: option.splits MessageContent.splits if_splits)
qed

lemma processMessages_paths:
  "filesArePaths acc \<Longrightarrow> processMessages trim msgs acc = Inr acc' \<Longrightarrow> filesArePaths acc'"
proof (induction msgs arbitrary: acc)
  case Nil
  then show ?case by simp
next
  case (Cons msg msgs)
  obtain acc1 where 1: "processMessage trim msg acc = Inr acc1"
    and 2: "processMessages trim msgs acc1 = Inr acc'"
    using Cons.prems(2) by (auto split: sum.splits)
  have "filesArePaths acc1"
    using Cons.prems(1) 1 by (rule processMessage_paths)
  then show ?case
    using 2 by (rule Cons.IH)
qed

lemma line_delimited_files_are_paths:
  assumes "parseSessionContent trim JSON_parse Date_parse content sid = Inr (Some s)"
  shows "\<forall>f\<in>set (filesFromToolCalls s). looksLikePath f"
proof -
  obtain acc where p: "processMessages trim
      (collectMessages JSON_parse (splitLines trim content)) emptyAccumulator = Inr acc"
    and f: "filesFromToolCalls s = acc_filesFromToolCalls acc"
    using parseLines_Some [of trim JSON_parse Date_parse "splitLines trim content" sid s] assms
    by (auto simp: parseSessionContent_def)
  have "filesArePaths emptyAccumulator"
    by (simp add: filesArePaths_def emptyAccumulator_def)
  then have "filesArePaths acc"
    using p by (rule processMessages_paths)
  then show ?thesis
    by (simp add: f filesArePaths_def)
qed

text \<open>
  Claim C1 at a concrete export. A tool call of the structured-export format with the
  parameter \<open>filePath = "README.md"\<close> puts that string, which has no path separator,
  into \<open>filesFromToolCalls\<close>. The line-delimited extractor keeps the invariant
  (\<open>line_delimited_files_are_paths\<close>).
\<close>

theorem export_file_without_separator:
  "filesFromToolCalls (parseOpenCodeSession example_export) = [''README.md'']
   \<and> \<not> looksLikePath ''README.md''"
  by code_simp

section \<open>Properties of the search\<close>

subsection \<open>Scoring\<close>

lemma scoreField_count:
  "scoreField w queryTerms text score = score + w * matchCount queryTerms text"
proof -
  have "fold (\<lambda>term sc. if js_includes text term then sc + w else sc) ts score
      = score + w * length (filter (\<lambda>term. js_includes text term) ts)" for ts
    by (induction ts arbitrary: score) simp_all
  then show ?thesis
    by (simp add: scoreField_def matchCount_def)
qed

lemma fold_scoreField:
  "fold (\<lambda>text sc. scoreField w queryTerms (toLowerCase text) sc) texts score
     = score + w * sum_list (map (\<lambda>text. matchCount queryTerms (toLowerCase text)) texts)"
  by (induction texts arbitrary: score) (simp_all add: scoreField_count algebra_simps)

lemma scoreRelevance_formula:
  "scoreRelevance toLowerCase splitWhitespace session query =
     (if query = [] then 1
      else 15 * (if truthy (title session)
                 then matchCount (queryTermsOf toLowerCase splitWhitespace query)
                        (toLowerCase (the (title session))) else 0)
         + 10 * sum_list (map (\<lambda>msg. matchCount (queryTermsOf toLowerCase splitWhitespace query)
                                        (toLowerCase msg))
                  (userMessages session))
         + 5 * matchCount (queryTermsOf toLowerCase splitWhitespace query)
                 (toLowerCase (cwd session))
         + 3 * sum_list (map (\<lambda>tool. matchCount (queryTermsOf toLowerCase splitWhitespace query)
                                        (toLowerCase tool))
                  (toolsUsed session))
         + 3 * sum_list (map (\<lambda>file. matchCount (queryTermsOf toLowerCase splitWhitespace query)
                                        (toLowerCase file))
                  (filesFromToolCalls session)))"
  by (simp add: scoreRelevance_def Let_def fold_scoreField scoreField_count queryTermsOf_def)

lemma sum_list_update_mono:
  fixes f :: "'a \<Rightarrow> nat"
  assumes "i < length xs" and "f (xs ! i) \<le> f y"
  shows "sum_list (map f xs) \<le> sum_list (map f (xs[i := y]))"
  using assms
proof (induction xs arbitrary: i)
  case Nil
  then show ?case by simp
next
  case (Cons x xs)
  then show ?case by (cases i) (auto simp: add_mono)
qed

lemma matchCount_mono:
  assumes "\<forall>term\<in>set queryTerms. js_includes text term \<longrightarrow> js_includes text' term"
  shows "matchCount queryTerms text \<le> matchCount queryTerms text'"
  using assms unfolding matchCount_def
proof (induction queryTerms)
  case Nil
  then show ?case by simp
next
  case (Cons t ts)
  then show ?case by auto
qed

text \<open>
  Claim C9, as the scorer has it. Replacing a user message by one whose lower-cased
  form still contains every query term that the lower-cased form of the message
  contained never lowers the score of the session. A message adds 10 for each query
  term it contains, however often the term occurs in it. An added occurrence can break
  the occurrence of another term, and then the score drops.
\<close>

theorem score_never_decreases_when_occurrences_are_kept:
  assumes "i < length (userMessages session)"
    and "\<forall>term\<in>set (queryTermsOf toLowerCase splitWhitespace query).
           js_includes (toLowerCase (userMessages session ! i)) term
             \<longrightarrow> js_includes (toLowerCase message) term"
  shows "scoreRelevance toLowerCase splitWhitespace session query
           \<le> scoreRelevance toLowerCase splitWhitespace
               (session\<lparr>userMessages := (userMessages session)[i := message]\<rparr>) query
       \<and> scoreField 10 queryTerms text score
           = score + 10 * length (filter (\<lambda>term. js_includes text term) queryTerms)"
proof
  let ?f = "\<lambda>msg. matchCount (queryTermsOf toLowerCase splitWhitespace query) (toLowerCase msg)"
  have "?f (userMessages session ! i) \<le> ?f message"
    using assms(2) by (rule matchCount_mono)
  with assms(1) have "sum_list (map ?f (userMessages session))
      \<le> sum_list (map ?f ((userMessages session)[i := message]))"
    by (rule sum_list_update_mono)
  then show "scoreRelevance toLowerCase splitWhitespace session query
           \<le> scoreRelevance toLowerCase splitWhitespace
               (session\<lparr>userMessages := (userMessages session)[i := message]\<rparr>) query"
    by (simp add: scoreRelevance_formula)
  show "scoreField 10 queryTerms text score
           = score + 10 * length (filter (\<lambda>term. js_includes text term) queryTerms)"
    by (simp add: scoreField_count matchCount_def)
qed

theorem score_never_decreases_when_occurrences_are_kept_witness:
  "0 < length (userMessages (parseOpenCodeSession example_export))
   \<and> userMessages (parseOpenCodeSession example_export) ! 0 = ''fix the bug''
   \<and> queryTermsOf ascii_toLowerCase ascii_split ''Bug fix'' = [''bug'', ''fix'']
   \<and> js_includes (ascii_toLowerCase ''fix the bug bug'') ''bug''
   \<and> js_includes (ascii_toLowerCase ''fix the bug bug'') ''fix''
   \<and> scoreRelevance ascii_toLowerCase ascii_split (parseOpenCodeSession example_export)
        ''Bug fix'' = 20
   \<and> scoreRelevance ascii_toLowerCase ascii_split
        ((parseOpenCodeSession example_export)\<lparr>userMessages := [''fix the bug bug'']\<rparr>)
        ''Bug fix'' = 20
   \<and> scoreRelevance ascii_toLowerCase ascii_split (parseOpenCodeSession example_export)
        ''Bug fix''
        \<le> scoreRelevance ascii_toLowerCase ascii_split
            ((parseOpenCodeSession example_export)\<lparr>userMessages := [''fix the bug bug'']\<rparr>)
            ''Bug fix''"
proof -
  let ?s = "parseOpenCodeSession example_export"
  have l: "0 < length (userMessages ?s)"
    by code_simp
  have m: "userMessages ?s ! 0 = ''fix the bug''"
    by code_simp
  have k: "queryTermsOf ascii_toLowerCase ascii_split ''Bug fix'' = [''bug'', ''fix'']"
    by code_simp
  have i1: "js_includes (ascii_toLowerCase ''fix the bug bug'') ''bug''"
    by code_simp
  have i2: "js_includes (ascii_toLowerCase ''fix the bug bug'') ''fix''"
    by code_simp
  have h: "\<forall>term\<in>set (queryTermsOf ascii_toLowerCase ascii_split ''Bug fix'').
           js_includes (ascii_toLowerCase (userMessages ?s ! 0)) term
             \<longrightarrow> js_includes (ascii_toLowerCase ''fix the bug bug'') term"
    unfolding k using i1 i2 by simp
  have u: "(userMessages ?s)[0 := ''fix the bug bug''] = [''fix the bug bug'']"
    by code_simp
  have a: "scoreRelevance ascii_toLowerCase ascii_split ?s ''Bug fix'' = 20"
    by code_simp
  have b: "scoreRelevance ascii_toLowerCase ascii_split
      (?s\<lparr>userMessages := [''fix the bug bug'']\<rparr>) ''Bug fix'' = 20"
    by code_simp
  have "scoreRelevance ascii_toLowerCase ascii_split ?s ''Bug fix''
      \<le> scoreRelevance ascii_toLowerCase ascii_split
          (?s\<lparr>userMessages := (userMessages ?s)[0 := ''fix the bug bug'']\<rparr>) ''Bug fix''"
    using score_never_decreases_when_occurrences_are_kept
      [where session = ?s and i = 0 and query = "''Bug fix''"
         and toLowerCase = ascii_toLowerCase and splitWhitespace = ascii_split
         and message = "''fix the bug bug''", OF l h]
    by (rule conjunct1)
  then have c: "scoreRelevance ascii_toLowerCase ascii_split ?s ''Bug fix''
      \<le> scoreRelevance ascii_toLowerCase ascii_split
          (?s\<lparr>userMessages := [''fix the bug bug'']\<rparr>) ''Bug fix''"
    unfolding u .
  show ?thesis
    by (intro conjI l m k i1 i2 a b c)
qed

theorem added_occurrence_counterexample:
  "queryTermsOf ascii_toLowerCase ascii_split ''api key'' = [''api'', ''key'']
   \<and> scoreRelevance ascii_toLowerCase ascii_split
        ((parseOpenCodeSession example_export)\<lparr>userMessages := [''a'' @ ''pi key'']\<rparr>)
        ''api key'' = 20
   \<and> scoreRelevance ascii_toLowerCase ascii_split
        ((parseOpenCodeSession example_export)\<lparr>userMessages := [''a'' @ ''key'' @ ''pi key'']\<rparr>)
        ''api key'' = 10"
  by code_simp

subsection \<open>Filters\<close>

lemma date_lt_iff:
  "date_lt a b \<longleftrightarrow> (\<exists>x y. a = ValidDate x \<and> b = ValidDate y \<and> x < y)"
  by (cases a; cases b) simp_all

lemma date_gt_iff:
  "date_gt a b \<longleftrightarrow> (\<exists>x y. a = ValidDate x \<and> b = ValidDate y \<and> y < x)"
  by (cases a; cases b) auto

lemma dateRejects_iff:
  "dateRejects session options now
     \<longleftrightarrow> (case opt_since options of None \<Rightarrow> False
           | Some since \<Rightarrow> date_lt (endedAt session) since)
       \<or> (case opt_until options of None \<Rightarrow> False
           | Some until \<Rightarrow> date_gt (endedAt session) until)
       \<or> (case opt_days options of None \<Rightarrow> False
           | Some days \<Rightarrow> days \<noteq> 0 \<and> date_lt (endedAt session) (cutoffDate now days))"
  by (cases "endedAt session")
     (auto simp: dateRejects_def date_lt_iff date_gt_iff split: option.splits Date.splits)

lemma matchesFilters_rules:
  "matchesFilters toLowerCase session options now
     \<longleftrightarrow> \<not> dateRejects session options now \<and> toolRule toLowerCase session options
         \<and> fileRule toLowerCase session options"
  unfolding dateRejects_iff
  by (auto simp: matchesFilters_def toolRule_def fileRule_def list_ex_iff
      split: option.splits)

lemma js_mul_exact: "\<bar>a * b\<bar> \<le> 2 ^ 53 \<Longrightarrow> js_mul a b = a * b"
  by (simp add: js_mul_def round_to_double_exact)

lemma cutoffDate_exact:
  assumes "\<bar>days\<bar> \<le> 100000000"
  shows "cutoffDate now days = newDate (now - days * 86400000)"
proof -
  have 1: "js_mul days 24 = days * 24"
    using assms by (intro js_mul_exact) (simp add: abs_mult)
  have 2: "js_mul (days * 24) 60 = days * 24 * 60"
    using assms by (intro js_mul_exact) (simp add: abs_mult)
  have 3: "js_mul (days * 24 * 60) 60 = days * 24 * 60 * 60"
    using assms by (intro js_mul_exact) (simp add: abs_mult)
  have 4: "js_mul (days * 24 * 60 * 60) 1000 = days * 24 * 60 * 60 * 1000"
    using assms by (intro js_mul_exact) (simp add: abs_mult)
  show ?thesis
    unfolding cutoffDate_def 1 2 3 4 js_sub_def newDate_round by (simp add: mult.commute)
qed

text \<open>
  Claim C8, as the filter has it. The date rule rejects a session exactly when its
  \<open>endedAt\<close> is a valid date that lies before a valid \<open>since\<close>, after a valid
  \<open>until\<close>, or before the valid cut-off of a \<open>days\<close> that is not 0; the bounds are
  inclusive, all rules apply together, and an Invalid Date on either side of a
  comparison rejects nothing. A \<open>days\<close> other than 0 filters as the \<open>since\<close> it
  computes does; up to \<open>10^8\<close> days in magnitude that date is now minus \<open>days\<close>
  days. \<open>days = 7\<close> rejects a session that ended 10 days ago. \<open>days = 0\<close> is no
  constraint.
\<close>

theorem date_range_rule:
  "(matchesFilters toLowerCase session options now
      \<longleftrightarrow> \<not> dateRejects session options now \<and> toolRule toLowerCase session options
          \<and> fileRule toLowerCase session options)
   \<and> (endedAt session = ValidDate t \<and> opt_since options = Some (ValidDate a)
        \<and> opt_until options = Some (ValidDate b) \<and> opt_days options = None \<longrightarrow>
        (matchesFilters toLowerCase session options now
           \<longleftrightarrow> a \<le> t \<and> t \<le> b \<and> toolRule toLowerCase session options
               \<and> fileRule toLowerCase session options))
   \<and> (days \<noteq> 0 \<and> opt_since options = None \<longrightarrow>
        matchesFilters toLowerCase session (options\<lparr>opt_days := Some days\<rparr>) now
          = matchesFilters toLowerCase session
              (options\<lparr>opt_days := None, opt_since := Some (cutoffDate now days)\<rparr>) now)
   \<and> (\<bar>days\<bar> \<le> 100000000 \<longrightarrow> cutoffDate now days = newDate (now - days * 86400000))
   \<and> (opt_days options = Some 7 \<and> 0 \<le> now \<and> now \<le> maxTime
        \<and> endedAt session = ValidDate (now - 10 * 86400000) \<longrightarrow>
        \<not> matchesFilters toLowerCase session options now)"
proof (intro conjI impI)
  show "matchesFilters toLowerCase session options now
      \<longleftrightarrow> \<not> dateRejects session options now \<and> toolRule toLowerCase session options
          \<and> fileRule toLowerCase session options"
    by (rule matchesFilters_rules)
next
  assume "endedAt session = ValidDate t \<and> opt_since options = Some (ValidDate a)
        \<and> opt_until options = Some (ValidDate b) \<and> opt_days options = None"
  then show "matchesFilters toLowerCase session options now
           \<longleftrightarrow> a \<le> t \<and> t \<le> b \<and> toolRule toLowerCase session options
               \<and> fileRule toLowerCase session options"
    by (auto simp: matchesFilters_rules dateRejects_def)
next
  assume "days \<noteq> 0 \<and> opt_since options = None"
  then show "matchesFilters toLowerCase session (options\<lparr>opt_days := Some days\<rparr>) now
          = matchesFilters toLowerCase session
              (options\<lparr>opt_days := None, opt_since := Some (cutoffDate now days)\<rparr>) now"
    by (auto simp: matchesFilters_rules dateRejects_iff toolRule_def fileRule_def)
next
  assume "\<bar>days\<bar> \<le> 100000000"
  then show "cutoffDate now days = newDate (now - days * 86400000)"
    by (rule cutoffDate_exact)
next
  assume h: "opt_days options = Some 7 \<and> 0 \<le> now \<and> now \<le> maxTime
        \<and> endedAt session = ValidDate (now - 10 * 86400000)"
  have "cutoffDate now 7 = newDate (now - 7 * 86400000)"
    by (rule cutoffDate_exact) simp
  also have "\<dots> = ValidDate (now - 7 * 86400000)"
  proof -
    have "\<bar>now - 7 * 86400000\<bar> \<le> maxTime"
      using h unfolding maxTime_def by linarith
    then show ?thesis by (simp add: newDate_def)
  qed
  finally have "dateRejects session options now"
    using h by (simp add: dateRejects_def)
  then show "\<not> matchesFilters toLowerCase session options now"
    by (simp add: matchesFilters_rules)
qed

theorem date_range_rule_witness:
  "opt_since no_options = None
   \<and> opt_days (no_options\<lparr>opt_days := Some 7\<rparr>) = Some 7
   \<and> endedAt (parseOpenCodeSession example_export) = ValidDate (864002000 - 10 * 86400000)
   \<and> cutoffDate 864002000 7 = ValidDate 259202000
   \<and> \<not> matchesFilters ascii_toLowerCase (parseOpenCodeSession example_export)
          (no_options\<lparr>opt_days := Some 7\<rparr>) 864002000
   \<and> \<not> matchesFilters ascii_toLowerCase (parseOpenCodeSession example_export)
          (no_options\<lparr>opt_days := None, opt_since := Some (cutoffDate 864002000 7)\<rparr>)
          864002000
   \<and> matchesFilters ascii_toLowerCase (parseOpenCodeSession example_export)
          (no_options\<lparr>opt_since := Some (ValidDate 2000), opt_until := Some (ValidDate 2000)\<rparr>)
          864002000"
proof -
  let ?s = "parseOpenCodeSession example_export"
  let ?o = "no_options\<lparr>opt_days := Some 7\<rparr>"
  let ?w = "no_options\<lparr>opt_since := Some (ValidDate 2000), opt_until := Some (ValidDate 2000)\<rparr>"
  have s: "opt_since no_options = None"
    by code_simp
  have d: "opt_days ?o = Some 7"
    by code_simp
  have e: "endedAt ?s = ValidDate (864002000 - 10 * 86400000)"
    by code_simp
  have n: "(0::int) \<le> 864002000 \<and> 864002000 \<le> maxTime"
    by code_simp
  have h2: "opt_days ?o = Some 7 \<and> (0::int) \<le> 864002000 \<and> 864002000 \<le> maxTime
      \<and> endedAt ?s = ValidDate (864002000 - 10 * 86400000)"
    using d n e by simp
  note t = date_range_rule
      [where session = ?s and options = ?o and now = 864002000
         and toLowerCase = ascii_toLowerCase]
  have r: "\<not> matchesFilters ascii_toLowerCase ?s ?o 864002000"
    by (rule t [THEN conjunct2, THEN conjunct2, THEN conjunct2, THEN conjunct2, THEN mp, OF h2])
  note t' = date_range_rule
      [where session = ?s and options = no_options and now = 864002000 and days = 7
         and toLowerCase = ascii_toLowerCase]
  have h1: "(7::int) \<noteq> 0 \<and> opt_since no_options = None"
    using s by simp
  have q0: "matchesFilters ascii_toLowerCase ?s ?o 864002000
      = matchesFilters ascii_toLowerCase ?s
          (no_options\<lparr>opt_days := None, opt_since := Some (cutoffDate 864002000 7)\<rparr>)
          864002000"
    by (rule t' [THEN conjunct2, THEN conjunct2, THEN conjunct1, THEN mp, OF h1])
  have q: "\<not> matchesFilters ascii_toLowerCase ?s
          (no_options\<lparr>opt_days := None, opt_since := Some (cutoffDate 864002000 7)\<rparr>)
          864002000"
    using r unfolding q0 .
  have b: "\<bar>7::int\<bar> \<le> 100000000"
    by simp
  have "cutoffDate 864002000 7 = newDate (864002000 - 7 * 86400000)"
    by (rule t' [THEN conjunct2, THEN conjunct2, THEN conjunct2, THEN conjunct1, THEN mp, OF b])
  also have "\<dots> = ValidDate 259202000"
    by code_simp
  finally have c: "cutoffDate 864002000 7 = ValidDate 259202000" .
  note t'' = date_range_rule
      [where session = ?s and options = ?w and now = 864002000 and t = 2000 and a = 2000
         and b = 2000 and toLowerCase = ascii_toLowerCase]
  have h3: "endedAt ?s = ValidDate 2000 \<and> opt_since ?w = Some (ValidDate 2000)
        \<and> opt_until ?w = Some (ValidDate 2000) \<and> opt_days ?w = None"
    by code_simp
  have rules: "(2000::int) \<le> 2000 \<and> (2000::int) \<le> 2000 \<and> toolRule ascii_toLowerCase ?s ?w
      \<and> fileRule ascii_toLowerCase ?s ?w"
    by code_simp
  have w: "matchesFilters ascii_toLowerCase ?s ?w 864002000"
    using t'' [THEN conjunct2, THEN conjunct1, THEN mp, OF h3] rules by (rule iffD2)
  show ?thesis
    by (intro conjI s d e c r q w)
qed

theorem days_zero_counterexample:
  "matchesFilters ascii_toLowerCase (parseOpenCodeSession example_export)
      (no_options\<lparr>opt_days := Some 0\<rparr>) 864002000
   \<and> cutoffDate 864002000 0 = ValidDate 864002000
   \<and> \<not> matchesFilters ascii_toLowerCase (parseOpenCodeSession example_export)
      (no_options\<lparr>opt_since := Some (cutoffDate 864002000 0)\<rparr>) 864002000"
  by code_simp

subsection \<open>Sorting\<close>

lemma set_insert_cmp: "set (insert_cmp cmp x xs) = insert x (set xs)"
  by (induction xs) auto

lemma set_sort_cmp: "set (sort_cmp cmp xs) = set xs"
  unfolding sort_cmp_def by (induction xs) (simp_all add: set_insert_cmp)

lemma sorted_insert_cmp:
  assumes tot: "\<And>a b. a \<in> A \<Longrightarrow> b \<in> A \<Longrightarrow> \<not> compareValue (cmp a b) \<le> 0
      \<Longrightarrow> compareValue (cmp b a) \<le> 0"
    and trans: "\<And>a b c. a \<in> A \<Longrightarrow> b \<in> A \<Longrightarrow> c \<in> A \<Longrightarrow> compareValue (cmp a b) \<le> 0
      \<Longrightarrow> compareValue (cmp b c) \<le> 0 \<Longrightarrow> compareValue (cmp a c) \<le> 0"
    and "x \<in> A" and "set xs \<subseteq> A"
    and "sorted_wrt (\<lambda>a b. compareValue (cmp a b) \<le> 0) xs"
  shows "sorted_wrt (\<lambda>a b. compareValue (cmp a b) \<le> 0) (insert_cmp cmp x xs)"
  using assms(4,5)
proof (induction xs)
  case Nil
  then show ?case by simp
next
  case (Cons y ys)
  have y: "y \<in> A" and ys: "set ys \<subseteq> A"
    using Cons.prems(1) by simp_all
  show ?case
  proof (cases "compareValue (cmp x y) \<le> 0")
    case True
    have "compareValue (cmp x z) \<le> 0" if "z \<in> set ys" for z
    proof -
      have "compareValue (cmp y z) \<le> 0" using Cons.prems(2) that by simp
      moreover have "z \<in> A" using ys that by blast
      ultimately show ?thesis using trans [OF assms(3) y _ True] by blast
    qed
    with True Cons.prems(2) show ?thesis by simp
  next
    case False
    then have "compareValue (cmp y x) \<le> 0"
      using tot [OF assms(3) y] by blast
    moreover have "sorted_wrt (\<lambda>a b. compareValue (cmp a b) \<le> 0) (insert_cmp cmp x ys)"
      using ys Cons.prems(2) by (intro Cons.IH) simp_all
    ultimately show ?thesis
      using False Cons.prems(2) by (auto simp: set_insert_cmp)
  qed
qed

lemma sorted_sort_cmp:
  assumes tot: "\<And>a b. a \<in> A \<Longrightarrow> b \<in> A \<Longrightarrow> \<not> compareValue (cmp a b) \<le> 0
      \<Longrightarrow> compareValue (cmp b a) \<le> 0"
    and trans: "\<And>a b c. a \<in> A \<Longrightarrow> b \<in> A \<Longrightarrow> c \<in> A \<Longrightarrow> compareValue (cmp a b) \<le> 0
      \<Longrightarrow> compareValue (cmp b c) \<le> 0 \<Longrightarrow> compareValue (cmp a c) \<le> 0"
    and "set xs \<subseteq> A"
  shows "sorted_wrt (\<lambda>a b. compareValue (cmp a b) \<le> 0) (sort_cmp cmp xs)"
  using assms(3)
proof (induction xs)
  case Nil
  then show ?case by (simp add: sort_cmp_def)
next
  case (Cons x xs)
  have s: "sorted_wrt (\<lambda>a b. compareValue (cmp a b) \<le> 0) (sort_cmp cmp xs)"
    using Cons by simp
  have m: "set (sort_cmp cmp xs) \<subseteq> A"
    using Cons.prems by (simp add: set_sort_cmp)
  have x: "x \<in> A"
    using Cons.prems by simp
  have "sorted_wrt (\<lambda>a b. compareValue (cmp a b) \<le> 0) (insert_cmp cmp x (sort_cmp cmp xs))"
    using tot trans x m s by (rule sorted_insert_cmp)
  then show ?case
    by (simp add: sort_cmp_def)
qed

lemma js_sub_sign: "js_sub a b \<le> 0 \<longleftrightarrow> a \<le> b"
  by (simp add: js_sub_def round_to_double_sign)

lemma compareResults_le:
  assumes "endedAt a = ValidDate ta" and "endedAt b = ValidDate tb"
  shows "compareValue (compareResults a b) \<le> 0 \<longleftrightarrow>
     relevance a > relevance b \<or> (relevance a = relevance b \<and> ta \<ge> tb)"
  using assms by (auto simp: compareResults_def js_sub_sign)

lemma sorted_compareResults:
  assumes "\<forall>r\<in>set xs. endedAt r \<noteq> InvalidDate"
  shows "sorted_wrt (\<lambda>a b. compareValue (compareResults a b) \<le> 0) (sort_cmp compareResults xs)"
proof (rule sorted_sort_cmp [where A = "{r. endedAt r \<noteq> InvalidDate}"])
  fix a b :: SearchResult
  assume "a \<in> {r. endedAt r \<noteq> InvalidDate}" and "b \<in> {r. endedAt r \<noteq> InvalidDate}"
  then obtain ta tb where t: "endedAt a = ValidDate ta" "endedAt b = ValidDate tb"
    by (cases "endedAt a"; cases "endedAt b") auto
  assume "\<not> compareValue (compareResults a b) \<le> 0"
  then show "compareValue (compareResults b a) \<le> 0"
    unfolding compareResults_le [OF t] compareResults_le [OF t(2,1)] by auto
next
  fix a b c :: SearchResult
  assume "a \<in> {r. endedAt r \<noteq> InvalidDate}" and "b \<in> {r. endedAt r \<noteq> InvalidDate}"
    and "c \<in> {r. endedAt r \<noteq> InvalidDate}"
  then obtain ta tb tc where t: "endedAt a = ValidDate ta" "endedAt b = ValidDate tb"
      "endedAt c = ValidDate tc"
    by (cases "endedAt a"; cases "endedAt b"; cases "endedAt c") auto
  assume "compareValue (compareResults a b) \<le> 0" and "compareValue (compareResults b c) \<le> 0"
  then show "compareValue (compareResults a c) \<le> 0"
    unfolding compareResults_le [OF t(1,2)] compareResults_le [OF t(2,3)]
      compareResults_le [OF t(1,3)] by auto
next
  show "set xs \<subseteq> {r. endedAt r \<noteq> InvalidDate}"
    using assms by auto
qed

lemma slice0_take: "\<exists>n. slice0 xs e = take n xs"
  by (auto simp: slice0_def)

lemma set_slice0: "set (slice0 xs e) \<subseteq> set xs"
  using slice0_take [of xs e] by (auto dest: in_set_takeD)

subsection \<open>The search loop\<close>

lemma extend_fields:
  "userMessages (ParsedSession.extend s (SearchResult.fields rel)) = userMessages s"
  "endedAt (ParsedSession.extend s (SearchResult.fields rel)) = endedAt s"
  "relevance (ParsedSession.extend s (SearchResult.fields rel)) = rel"
  "ParsedSession.truncate (ParsedSession.extend s (SearchResult.fields rel)) = s"
  by (simp_all add: ParsedSession.defs SearchResult.defs)

lemma extend_scoreRelevance:
  "scoreRelevance toLowerCase splitWhitespace
       (ParsedSession.extend s (SearchResult.fields rel)) query
     = scoreRelevance toLowerCase splitWhitespace s query"
  by (simp add: scoreRelevance_formula ParsedSession.defs SearchResult.defs)

lemma truncate_scoreRelevance:
  "scoreRelevance toLowerCase splitWhitespace (ParsedSession.truncate r) query
     = scoreRelevance toLowerCase splitWhitespace r query"
  by (simp add: scoreRelevance_formula ParsedSession.defs)

lemma searchStep_cases:
  "searchStep toLowerCase splitWhitespace options now rawSession results = results
   \<or> (\<exists>raw rel. rawSession = Some raw
         \<and> userMessages (parseOpenCodeSession raw) \<noteq> []
         \<and> rel = (if truthy (opt_query options)
                   then scoreRelevance toLowerCase splitWhitespace (parseOpenCodeSession raw)
                          (the (opt_query options))
                   else 1)
         \<and> \<not> (truthy (opt_query options) \<and> rel = 0)
         \<and> searchStep toLowerCase splitWhitespace options now rawSession results
             = results @ [ParsedSession.extend (parseOpenCodeSession raw)
                            (SearchResult.fields rel)])"
  by (cases rawSession) (simp_all add: searchStep_def Let_def)

lemma searchStep_retained:
  assumes "\<forall>r\<in>set results. retained toLowerCase splitWhitespace options r"
  shows "\<forall>r\<in>set (searchStep toLowerCase splitWhitespace options now rawSession results).
           retained toLowerCase splitWhitespace options r"
  using searchStep_cases [of toLowerCase splitWhitespace options now rawSession results] assms
  by (auto simp: retained_def extend_fields extend_scoreRelevance)

lemma searchLoop_retained:
  "\<forall>r\<in>set results. retained toLowerCase splitWhitespace options r \<Longrightarrow>
     \<forall>r\<in>set (searchLoop toLowerCase splitWhitespace options Date_now i exports results).
        retained toLowerCase splitWhitespace options r"
proof (induction exports arbitrary: results i)
  case Nil
  then show ?case by simp
next
  case (Cons rawSession exports)
  have "\<forall>r\<in>set (searchStep toLowerCase splitWhitespace options (Date_now i) rawSession results).
      retained toLowerCase splitWhitespace options r"
    using Cons.prems by (rule searchStep_retained)
  then have "\<forall>r\<in>set (searchLoop toLowerCase splitWhitespace options Date_now (Suc i) exports
      (searchStep toLowerCase splitWhitespace options (Date_now i) rawSession results)).
        retained toLowerCase splitWhitespace options r"
    by (rule Cons.IH)
  then show ?case by simp
qed

lemma searchSessions_retained:
  "\<forall>r\<in>set (searchSessions toLowerCase splitWhitespace options Date_now exports).
     retained toLowerCase splitWhitespace options r"
proof -
  have "\<forall>r\<in>set (searchLoop toLowerCase splitWhitespace options Date_now 0 exports []).
      retained toLowerCase splitWhitespace options r"
    by (rule searchLoop_retained) simp
  then have "\<forall>r\<in>set (sort_cmp compareResults
      (searchLoop toLowerCase splitWhitespace options Date_now 0 exports [])).
      retained toLowerCase splitWhitespace options r"
    by (simp add: set_sort_cmp)
  then show ?thesis
    using set_slice0 by (fastforce simp: searchSessions_def Let_def)
qed

lemma searchStep_dates:
  assumes "\<forall>r\<in>set results. endedAt r \<noteq> InvalidDate"
    and "case rawSession of None \<Rightarrow> True | Some raw \<Rightarrow> \<bar>info_time_updated raw\<bar> \<le> maxTime"
  shows "\<forall>r\<in>set (searchStep toLowerCase splitWhitespace options now rawSession results).
           endedAt r \<noteq> InvalidDate"
proof -
  have "endedAt (parseOpenCodeSession raw) \<noteq> InvalidDate"
    if "\<bar>info_time_updated raw\<bar> \<le> maxTime" for raw
    using that by (simp add: parseOpenCodeSession_def Let_def newDate_def)
  then show ?thesis
    using searchStep_cases [of toLowerCase splitWhitespace options now rawSession results] assms
    by (auto simp: extend_fields)
qed

lemma searchLoop_dates:
  "\<forall>r\<in>set results. endedAt r \<noteq> InvalidDate \<Longrightarrow> validDates exports \<Longrightarrow>
     \<forall>r\<in>set (searchLoop toLowerCase splitWhitespace options Date_now i exports results).
        endedAt r \<noteq> InvalidDate"
proof (induction exports arbitrary: results i)
  case Nil
  then show ?case by simp
next
  case (Cons rawSession exports)
  have v: "case rawSession of None \<Rightarrow> True | Some raw \<Rightarrow> \<bar>info_time_updated raw\<bar> \<le> maxTime"
    and vs: "validDates exports"
    using Cons.prems(2) by (simp_all add: validDates_def)
  have "\<forall>r\<in>set (searchStep toLowerCase splitWhitespace options (Date_now i) rawSession results).
      endedAt r \<noteq> InvalidDate"
    using Cons.prems(1) v by (rule searchStep_dates)
  then have "\<forall>r\<in>set (searchLoop toLowerCase splitWhitespace options Date_now (Suc i) exports
      (searchStep toLowerCase splitWhitespace options (Date_now i) rawSession results)).
        endedAt r \<noteq> InvalidDate"
    using vs by (rule Cons.IH)
  then show ?case by simp
qed

lemma searchSessions_sorted:
  assumes "validDates exports"
  shows "sorted_wrt (\<lambda>a b. compareValue (compareResults a b) \<le> 0)
           (searchSessions toLowerCase splitWhitespace options Date_now exports)"
    and "\<forall>r\<in>set (searchSessions toLowerCase splitWhitespace options Date_now exports).
           endedAt r \<noteq> InvalidDate"
proof -
  let ?results = "searchLoop toLowerCase splitWhitespace options Date_now 0 exports []"
  have d: "\<forall>r\<in>set ?results. endedAt r \<noteq> InvalidDate"
    using _ assms by (rule searchLoop_dates) simp
  obtain n where n: "searchSessions toLowerCase splitWhitespace options Date_now exports
      = take n (sort_cmp compareResults ?results)"
    using slice0_take by (auto simp: searchSessions_def Let_def)
  show "sorted_wrt (\<lambda>a b. compareValue (compareResults a b) \<le> 0)
           (searchSessions toLowerCase splitWhitespace options Date_now exports)"
    unfolding n using sorted_compareResults [OF d] by (simp add: sorted_wrt_take)
  show "\<forall>r\<in>set (searchSessions toLowerCase splitWhitespace options Date_now exports).
           endedAt r \<noteq> InvalidDate"
    unfolding n using d by (auto dest: in_set_takeD simp: set_sort_cmp)
qed

lemma searchSessions_length:
  assumes "0 \<le> effectiveLimit options"
  shows "int (length (searchSessions toLowerCase splitWhitespace options Date_now exports))
           \<le> effectiveLimit options"
proof -
  have "searchSessions toLowerCase splitWhitespace options Date_now exports
      = slice0 (sort_cmp compareResults
                  (searchLoop toLowerCase splitWhitespace options Date_now 0 exports []))
          (effectiveLimit options)"
    by (simp add: searchSessions_def Let_def effectiveLimit_def)
  then show ?thesis
    using assms by (simp add: slice0_def)
qed

text \<open>
  Claim C4, as the search has it. When the \<open>time.updated\<close> of every export makes a
  valid date, then in the result list, for all \<open>i < j\<close>, the entry at \<open>i\<close> has a
  greater relevance than the entry at \<open>j\<close>, or the same relevance and an \<open>endedAt\<close>
  not earlier. The list has at most \<open>limit\<close> entries when \<open>limit\<close> is positive, and
  at most 20 when \<open>limit\<close> is absent or 0.
\<close>

theorem results_sorted_and_limited:
  "(validDates exports \<longrightarrow>
      (\<forall>i j. i < j \<and> j < length (searchSessions toLowerCase splitWhitespace options Date_now exports)
         \<longrightarrow>
         relevance (searchSessions toLowerCase splitWhitespace options Date_now exports ! i)
           > relevance (searchSessions toLowerCase splitWhitespace options Date_now exports ! j)
         \<or> (relevance (searchSessions toLowerCase splitWhitespace options Date_now exports ! i)
              = relevance (searchSessions toLowerCase splitWhitespace options Date_now exports ! j)
            \<and> date_ge
                (endedAt (searchSessions toLowerCase splitWhitespace options Date_now exports ! i))
                (endedAt (searchSessions toLowerCase splitWhitespace options Date_now exports ! j)))))
   \<and> (opt_limit options = None \<or> opt_limit options = Some 0 \<longrightarrow>
         length (searchSessions toLowerCase splitWhitespace options Date_now exports) \<le> 20)
   \<and> (\<forall>l. opt_limit options = Some l \<and> 0 < l \<longrightarrow>
         int (length (searchSessions toLowerCase splitWhitespace options Date_now exports)) \<le> l)"
proof (intro conjI allI impI)
  let ?rs = "searchSessions toLowerCase splitWhitespace options Date_now exports"
  fix i j
  assume v: "validDates exports" and ij: "i < j \<and> j < length ?rs"
  have c: "compareValue (compareResults (?rs ! i) (?rs ! j)) \<le> 0"
    using searchSessions_sorted(1) [OF v, of toLowerCase splitWhitespace options Date_now] ij
    by (simp add: sorted_wrt_iff_nth_less)
  have "endedAt (?rs ! i) \<noteq> InvalidDate" and "endedAt (?rs ! j) \<noteq> InvalidDate"
    using searchSessions_sorted(2) [OF v, of toLowerCase splitWhitespace options Date_now] ij
    by simp_all
  then obtain ti tj where t: "endedAt (?rs ! i) = ValidDate ti" "endedAt (?rs ! j) = ValidDate tj"
    by (cases "endedAt (?rs ! i)"; cases "endedAt (?rs ! j)") auto
  show "relevance (?rs ! i) > relevance (?rs ! j)
         \<or> (relevance (?rs ! i) = relevance (?rs ! j)
            \<and> date_ge (endedAt (?rs ! i)) (endedAt (?rs ! j)))"
    using c unfolding compareResults_le [OF t] by (simp add: t)
next
  assume "opt_limit options = None \<or> opt_limit options = Some 0"
  then have "effectiveLimit options = 20"
    by (auto simp: effectiveLimit_def)
  then show "length (searchSessions toLowerCase splitWhitespace options Date_now exports) \<le> 20"
    using searchSessions_length [of options toLowerCase splitWhitespace Date_now exports] by simp
next
  fix l
  assume "opt_limit options = Some l \<and> 0 < l"
  then have "effectiveLimit options = l" "0 \<le> effectiveLimit options"
    by (auto simp: effectiveLimit_def)
  then show "int (length (searchSessions toLowerCase splitWhitespace options Date_now exports)) \<le> l"
    using searchSessions_length [of options toLowerCase splitWhitespace Date_now exports] by simp
qed

theorem results_sorted_and_limited_witness:
  "validDates example_exports
   \<and> map (\<lambda>r. (session_id r, relevance r, endedAt r))
       (searchSessions ascii_toLowerCase ascii_split septa_options (\<lambda>i. 10000) example_exports)
     = [(''ses_2'', 20, ValidDate 3000), (''ses_1'', 20, ValidDate 2000)]
   \<and> (relevance (searchSessions ascii_toLowerCase ascii_split septa_options (\<lambda>i. 10000)
                   example_exports ! 0)
         > relevance (searchSessions ascii_toLowerCase ascii_split septa_options (\<lambda>i. 10000)
                       example_exports ! 1)
       \<or> (relevance (searchSessions ascii_toLowerCase ascii_split septa_options (\<lambda>i. 10000)
                       example_exports ! 0)
            = relevance (searchSessions ascii_toLowerCase ascii_split septa_options (\<lambda>i. 10000)
                          example_exports ! 1)
          \<and> date_ge
              (endedAt (searchSessions ascii_toLowerCase ascii_split septa_options (\<lambda>i. 10000)
                          example_exports ! 0))
              (endedAt (searchSessions ascii_toLowerCase ascii_split septa_options (\<lambda>i. 10000)
                          example_exports ! 1))))
   \<and> opt_limit septa_options = Some 2
   \<and> int (length (searchSessions ascii_toLowerCase ascii_split septa_options (\<lambda>i. 10000)
                     example_exports)) \<le> 2"
proof -
  let ?rs = "searchSessions ascii_toLowerCase ascii_split septa_options (\<lambda>i. 10000) example_exports"
  note t = results_sorted_and_limited
      [where options = septa_options and Date_now = "\<lambda>i. 10000" and exports = example_exports
         and toLowerCase = ascii_toLowerCase and splitWhitespace = ascii_split]
  have d: "validDates example_exports"
    by code_simp
  have v: "map (\<lambda>r. (session_id r, relevance r, endedAt r)) ?rs
      = [(''ses_2'', 20, ValidDate 3000), (''ses_1'', 20, ValidDate 2000)]"
    by code_simp
  have "length (map (\<lambda>r. (session_id r, relevance r, endedAt r)) ?rs) = 2"
    unfolding v by simp
  then have n: "(0::nat) < 1 \<and> 1 < length ?rs"
    by simp
  have o: "relevance (?rs ! 0) > relevance (?rs ! 1)
       \<or> (relevance (?rs ! 0) = relevance (?rs ! 1)
          \<and> date_ge (endedAt (?rs ! 0)) (endedAt (?rs ! 1)))"
    by (rule t [THEN conjunct1, THEN mp, OF d, THEN spec, THEN spec, THEN mp, OF n])
  have l: "opt_limit septa_options = Some 2"
    by code_simp
  then have l': "opt_limit septa_options = Some 2 \<and> (0::int) < 2"
    by simp
  have b: "int (length ?rs) \<le> 2"
    by (rule t [THEN conjunct2, THEN conjunct2, THEN spec, THEN mp, OF l'])
  show ?thesis
    by (intro conjI d v o l b)
qed

theorem limit_zero_counterexample:
  "opt_limit (septa_options\<lparr>opt_limit := Some 0\<rparr>) = Some 0
   \<and> length (searchSessions ascii_toLowerCase ascii_split
               (septa_options\<lparr>opt_limit := Some 0\<rparr>) (\<lambda>i. 10000) example_exports) = 3"
  by code_simp

lemma matchCount_zero_iff:
  "matchCount queryTerms text = 0 \<longleftrightarrow> (\<forall>term\<in>set queryTerms. \<not> js_includes text term)"
  by (simp add: matchCount_def filter_empty_conv)

lemma score_zero_iff:
  assumes "query \<noteq> []"
  shows "scoreRelevance toLowerCase splitWhitespace session query = 0
     \<longleftrightarrow> (\<forall>term\<in>set (queryTermsOf toLowerCase splitWhitespace query).
            \<not> termAppears toLowerCase session term)"
  using assms
  by (auto simp: scoreRelevance_formula matchCount_zero_iff termAppears_def)

text \<open>
  Claim C5. For a non-empty query the score of a session is 0 exactly when no query
  term appears, compared in lower case, in the title, a user message, the working
  directory, a tool name or a touched file path; and a session with score 0 is not
  among the results of the search: every result has a score other than 0, which is its
  relevance.
\<close>

theorem zero_score_session_is_excluded:
  assumes "opt_query options = Some query" and "query \<noteq> []"
  shows "(scoreRelevance toLowerCase splitWhitespace session query = 0
            \<longleftrightarrow> (\<forall>term\<in>set (queryTermsOf toLowerCase splitWhitespace query).
                   \<not> termAppears toLowerCase session term))
       \<and> (\<forall>r\<in>set (searchSessions toLowerCase splitWhitespace options Date_now exports).
             scoreRelevance toLowerCase splitWhitespace r query \<noteq> 0
             \<and> relevance r = scoreRelevance toLowerCase splitWhitespace r query)
       \<and> (scoreRelevance toLowerCase splitWhitespace (parseOpenCodeSession raw) query = 0 \<longrightarrow>
             parseOpenCodeSession raw
               \<notin> ParsedSession.truncate
                   ` set (searchSessions toLowerCase splitWhitespace options Date_now exports))"
proof (intro conjI)
  show "scoreRelevance toLowerCase splitWhitespace session query = 0
            \<longleftrightarrow> (\<forall>term\<in>set (queryTermsOf toLowerCase splitWhitespace query).
                   \<not> termAppears toLowerCase session term)"
    using assms(2) by (rule score_zero_iff)
  show r: "\<forall>r\<in>set (searchSessions toLowerCase splitWhitespace options Date_now exports).
             scoreRelevance toLowerCase splitWhitespace r query \<noteq> 0
             \<and> relevance r = scoreRelevance toLowerCase splitWhitespace r query"
    using searchSessions_retained [of toLowerCase splitWhitespace options Date_now exports] assms
    by (auto simp: retained_def)
  show "scoreRelevance toLowerCase splitWhitespace (parseOpenCodeSession raw) query = 0 \<longrightarrow>
             parseOpenCodeSession raw
               \<notin> ParsedSession.truncate
                   ` set (searchSessions toLowerCase splitWhitespace options Date_now exports)"
  proof (intro impI notI)
    assume z: "scoreRelevance toLowerCase splitWhitespace (parseOpenCodeSession raw) query = 0"
    assume "parseOpenCodeSession raw
               \<in> ParsedSession.truncate
                   ` set (searchSessions toLowerCase splitWhitespace options Date_now exports)"
    then obtain r where "r \<in> set (searchSessions toLowerCase splitWhitespace options Date_now exports)"
      and "parseOpenCodeSession raw = ParsedSession.truncate r" by blast
    then show False
      using r z truncate_scoreRelevance [of toLowerCase splitWhitespace r query] by auto
  qed
qed

theorem zero_score_session_is_excluded_witness:
  "opt_query septa_options = Some ''septa'' \<and> ''septa'' \<noteq> []
   \<and> scoreRelevance ascii_toLowerCase ascii_split (parseOpenCodeSession export_unrelated)
        ''septa'' = 0
   \<and> Some export_unrelated \<in> set example_exports
   \<and> parseOpenCodeSession export_unrelated
        \<notin> ParsedSession.truncate
            ` set (searchSessions ascii_toLowerCase ascii_split septa_options (\<lambda>i. 10000)
                     example_exports)
   \<and> queryTermsOf ascii_toLowerCase ascii_split ''septa'' = [''septa'']
   \<and> \<not> termAppears ascii_toLowerCase (parseOpenCodeSession export_unrelated) ''septa''"
proof -
  let ?s = "parseOpenCodeSession export_unrelated"
  have q: "opt_query septa_options = Some ''septa''"
    by code_simp
  have ne: "''septa'' \<noteq> []"
    by simp
  note t = zero_score_session_is_excluded
      [where options = septa_options and query = "''septa''" and session = ?s
         and Date_now = "\<lambda>i. 10000" and exports = example_exports and raw = export_unrelated
         and toLowerCase = ascii_toLowerCase and splitWhitespace = ascii_split,
       OF q ne]
  have z: "scoreRelevance ascii_toLowerCase ascii_split ?s ''septa'' = 0"
    by code_simp
  have m: "Some export_unrelated \<in> set example_exports"
    by (simp add: example_exports_def)
  have x: "?s \<notin> ParsedSession.truncate
      ` set (searchSessions ascii_toLowerCase ascii_split septa_options (\<lambda>i. 10000) example_exports)"
    by (rule t [THEN conjunct2, THEN conjunct2, THEN mp, OF z])
  have k: "queryTermsOf ascii_toLowerCase ascii_split ''septa'' = [''septa'']"
    by code_simp
  have "\<forall>term\<in>set (queryTermsOf ascii_toLowerCase ascii_split ''septa'').
      \<not> termAppears ascii_toLowerCase ?s term"
    using t [THEN conjunct1] z by (rule iffD1)
  then have a: "\<not> termAppears ascii_toLowerCase ?s ''septa''"
    unfolding k by simp
  show ?thesis
    by (intro conjI q ne z m x k a)
qed

subsection \<open>Empty sessions\<close>

text \<open>
  Claim C3, as the code has it. The line-delimited extractor returns \<open>null\<close> exactly
  when no conversational event is retained; the structured-export extractor always
  returns a session. A session whose user-message sequence is empty is returned by the
  extractor and is dropped by the search loop: no result of the search has an empty
  \<open>userMessages\<close>.
\<close>

theorem null_only_without_events:
  "(parseSessionContent trim JSON_parse Date_parse content sid = Inr None
      \<longleftrightarrow> collectMessages JSON_parse (splitLines trim content) = [])
   \<and> (\<forall>r\<in>set (searchSessions toLowerCase splitWhitespace options Date_now exports).
         userMessages r \<noteq> [])"
  using searchSessions_retained [of toLowerCase splitWhitespace options Date_now exports]
  by (simp add: parseSessionContent_def parseLines_None_iff retained_def)

theorem null_only_without_events_witness:
  "collectMessages example_JSON_parse (splitLines ascii_trim line_malformed) = []
   \<and> parseSessionContent ascii_trim example_JSON_parse example_Date_parse line_malformed None
       = Inr None
   \<and> Some export_no_user \<in> set example_exports
   \<and> 0 < length (searchSessions ascii_toLowerCase ascii_split septa_options (\<lambda>i. 10000)
                    example_exports)
   \<and> userMessages (searchSessions ascii_toLowerCase ascii_split septa_options (\<lambda>i. 10000)
                      example_exports ! 0) \<noteq> []"
proof -
  let ?rs = "searchSessions ascii_toLowerCase ascii_split septa_options (\<lambda>i. 10000) example_exports"
  note t = null_only_without_events
      [where JSON_parse = example_JSON_parse and Date_parse = example_Date_parse
         and trim = ascii_trim and content = line_malformed and sid = None
         and toLowerCase = ascii_toLowerCase and splitWhitespace = ascii_split
         and options = septa_options and Date_now = "\<lambda>i. 10000" and exports = example_exports]
  have c: "collectMessages example_JSON_parse (splitLines ascii_trim line_malformed) = []"
    by code_simp
  have p: "parseSessionContent ascii_trim example_JSON_parse example_Date_parse
      line_malformed None = Inr None"
    using t [THEN conjunct1] c by (rule iffD2)
  have m: "Some export_no_user \<in> set example_exports"
    by (simp add: example_exports_def)
  have "length ?rs = 2"
    by code_simp
  then have n: "0 < length ?rs"
    by simp
  then have "?rs ! 0 \<in> set ?rs"
    by (rule nth_mem)
  then have u: "userMessages (?rs ! 0) \<noteq> []"
    by (rule t [THEN conjunct2, THEN bspec])
  show ?thesis
    by (intro conjI c p m n u)
qed

theorem empty_user_messages_counterexample:
  "map_sum id (map_option userMessages)
     (parseSessionContent ascii_trim example_JSON_parse example_Date_parse line_assistant None)
     = Inr (Some [])
   \<and> map_sum id (map_option messageCount)
     (parseSessionContent ascii_trim example_JSON_parse example_Date_parse line_assistant None)
     = Inr (Some 1)
   \<and> userMessages (parseOpenCodeSession export_no_user) = []"
  by code_simp

end
